(* ===== verification/Prelude.thy ===== *)
theory Prelude
  imports Complex_Main "HOL-Library.AList" "HOL-Library.Stream" "HOL-Library.Multiset"
begin

text \<open>
  Shared vocabulary of the development: the collections of facts the component
  theories feed, the JavaScript string helpers the component calls
  (\<open>String.prototype.trim\<close>, decimal digit strings of \<open>Number\<close> values) and
  the rounding of a non-negative integer to the nearest IEEE-754 double, which is
  what \<open>entry.clicks + 1\<close> computes. JavaScript strings are sequences of UTF-16
  code units; the model uses HOL's \<open>string\<close>, a list of 8-bit \<open>char\<close>s, so
  the code units it can express are those below 256.
\<close>

named_theorems obj_simps "equations of the JavaScript object model"
named_theorems handler_simps "unfolding equations of the event handlers"

type_synonym js_string = string

subsection \<open>String.prototype.trim\<close>

text \<open>
  ECMAScript \<open>trim\<close> removes leading and trailing \<open>WhiteSpace\<close> and
  \<open>LineTerminator\<close> code units. Below 256 these are TAB, LF, VT, FF, CR, SPACE and
  NO-BREAK SPACE (U+00A0).
\<close>

definition is_js_ws :: "char \<Rightarrow> bool" where
  "is_js_ws c \<longleftrightarrow> of_char c \<in> {9, 10, 11, 12, 13, 32, 160 :: nat}"

definition js_trim :: "js_string \<Rightarrow> js_string" where
  "js_trim s = rev (dropWhile is_js_ws (rev (dropWhile is_js_ws s)))"

subsection \<open>Decimal digit strings\<close>

definition is_digit :: "char \<Rightarrow> bool" where
  "is_digit c \<longleftrightarrow> 48 \<le> (of_char c :: nat) \<and> (of_char c :: nat) \<le> 57"

definition digit_char :: "nat \<Rightarrow> char" where
  "digit_char d = char_of (48 + d)"

definition digit_val :: "char \<Rightarrow> nat" where
  "digit_val c = of_char c - 48"

text \<open>\<open>String(n)\<close> for a non-negative integer \<open>n\<close> below \<open>10^21\<close>.\<close>

fun string_of_nat :: "nat \<Rightarrow> js_string" where
  "string_of_nat n =
     (if n < 10 then [digit_char n] else string_of_nat (n div 10) @ [digit_char (n mod 10)])"

definition nat_of_digits :: "js_string \<Rightarrow> nat" where
  "nat_of_digits s = foldl (\<lambda>acc c. 10 * acc + digit_val c) 0 s"

declare string_of_nat.simps [simp del]

lemma digit_char_is_digit [simp]: "d < 10 \<Longrightarrow> is_digit (digit_char d)"
  by (simp add: digit_char_def is_digit_def)

lemma digit_val_digit_char [simp]: "d < 10 \<Longrightarrow> digit_val (digit_char d) = d"
  by (simp add: digit_char_def digit_val_def)

lemma nat_of_digits_snoc [simp]:
  "nat_of_digits (s @ [c]) = 10 * nat_of_digits s + digit_val c"
  by (simp add: nat_of_digits_def)

lemma nat_of_digits_Nil [simp]: "nat_of_digits [] = 0"
  by (simp add: nat_of_digits_def)

lemma nat_of_string_of_nat [simp]: "nat_of_digits (string_of_nat n) = n"
proof (induction n rule: string_of_nat.induct)
  case (1 n)
  show ?case
  proof (cases "n < 10")
    case True
    then show ?thesis by (simp add: string_of_nat.simps [of n] nat_of_digits_def)
  next
    case False
    then have "nat_of_digits (string_of_nat (n div 10)) = n div 10" using "1.IH" by simp
    with False show ?thesis by (simp add: string_of_nat.simps [of n])
  qed
qed

lemma string_of_nat_digits: "c \<in> set (string_of_nat n) \<Longrightarrow> is_digit c"
proof (induction n rule: string_of_nat.induct)
  case (1 n)
  then show ?case by (cases "n < 10") (auto simp: string_of_nat.simps [of n])
qed

lemma string_of_nat_nonempty [simp]: "string_of_nat n \<noteq> []"
  by (simp add: string_of_nat.simps [of n])

lemma string_of_nat_inj: "string_of_nat m = string_of_nat n \<longleftrightarrow> m = n"
  by (metis nat_of_string_of_nat)

lemma string_of_nat_hd_zero: "string_of_nat n = CHR ''0'' # t \<Longrightarrow> n = 0 \<and> t = []"
proof (induction n arbitrary: t rule: string_of_nat.induct)
  case (1 n)
  show ?case
  proof (cases "n < 10")
    case True
    with "1.prems" have "char_of (48 + n) = (CHR ''0'')" "t = []"
      by (simp_all add: string_of_nat.simps [of n] digit_char_def)
    then have "(of_char (char_of (48 + n)) :: nat) = of_char (CHR ''0'')" by simp
    then have "(48 + n) mod 256 = (48 :: nat)" by (simp only: of_char_of) simp
    with True \<open>t = []\<close> show ?thesis by simp
  next
    case False
    obtain c t' where ct: "string_of_nat (n div 10) = c # t'"
      by (cases "string_of_nat (n div 10)") auto
    with "1.prems" False have "c = CHR ''0''" by (simp add: string_of_nat.simps [of n])
    with ct have "n div 10 = 0" using "1.IH" False by blast
    with False show ?thesis by simp
  qed
qed

lemma string_of_nat_canonical:
  "\<exists>c t. string_of_nat n = c # t \<and> list_all is_digit (string_of_nat n) \<and> \<not> (c = CHR ''0'' \<and> t \<noteq> [])"
proof -
  obtain c t where ct: "string_of_nat n = c # t" by (cases "string_of_nat n") auto
  moreover have "list_all is_digit (string_of_nat n)"
    using string_of_nat_digits by (auto simp: list_all_iff)
  moreover have "\<not> (c = CHR ''0'' \<and> t \<noteq> [])" using string_of_nat_hd_zero [of n t] ct by auto
  ultimately show ?thesis by blast
qed

end
