(* ===== verification/JsObject.thy ===== *)
theory JsObject
  imports Prelude
begin

text \<open>
  JavaScript plain objects, as the component uses them for \<open>urlMap\<close>
  (\<open>src/src/UrlShortener.jsx\<close>). An object is the list of its own properties in
  the order they were created; keys are unique (\<open>obj_wf\<close>). Reading a property is
  \<open>map_of\<close>, assigning one is \<open>AList.update\<close> (in place when the key exists,
  appended otherwise), \<open>delete\<close> is \<open>AList.delete\<close>. The enumeration order
  of \<open>Object.keys\<close>, \<open>Object.entries\<close>, spread and \<open>JSON.stringify\<close> is
  ECMAScript's \<open>OrdinaryOwnPropertyKeys\<close>: first the keys that are array
  indices (canonical decimal strings of \<open>0 .. 2^32 - 2\<close>) in ascending numeric
  order, then the other string keys in creation order. A short key such as
  \<open>''123456''\<close> is an array index, so the order is not plain creation order.
\<close>

type_synonym 'v jsobj = "(js_string \<times> 'v) list"

definition no_leading_zero :: "js_string \<Rightarrow> bool" where
  "no_leading_zero k = (case k of c # d # cs \<Rightarrow> c \<noteq> CHR ''0'' | _ \<Rightarrow> True)"

definition is_array_index :: "js_string \<Rightarrow> bool" where
  "is_array_index k \<longleftrightarrow>
     k \<noteq> [] \<and> list_all is_digit k \<and> no_leading_zero k \<and> nat_of_digits k < 4294967295"


text \<open>\<open>OrdinaryOwnPropertyKeys\<close>, given the keys in creation order.\<close>

definition own_property_keys :: "js_string list \<Rightarrow> js_string list" where
  "own_property_keys ks =
     sort_key nat_of_digits (filter is_array_index ks) @ filter (\<lambda>k. \<not> is_array_index k) ks"

definition obj_keys :: "'v jsobj \<Rightarrow> js_string list" where
  "obj_keys m = own_property_keys (map fst m)"

text \<open>\<open>Object.entries\<close>: the properties in enumeration order.\<close>

definition obj_entries :: "'v jsobj \<Rightarrow> 'v jsobj" where
  "obj_entries m =
     sort_key (\<lambda>e. nat_of_digits (fst e)) (filter (\<lambda>e. is_array_index (fst e)) m)
     @ filter (\<lambda>e. \<not> is_array_index (fst e)) m"

text \<open>
  Spread \<open>{...m}\<close>: a fresh object on which the properties of \<open>m\<close> are created
  one by one, in enumeration order (\<open>CopyDataProperties\<close>).
\<close>

definition obj_spread :: "'v jsobj \<Rightarrow> 'v jsobj" where
  "obj_spread m = foldl (\<lambda>acc e. AList.update (fst e) (snd e) acc) [] (obj_entries m)"

definition obj_wf :: "'v jsobj \<Rightarrow> bool" where
  "obj_wf m \<longleftrightarrow> distinct (map fst m)"

text \<open>
  Reading \<open>m[k]\<close> (\<open>[[Get]]\<close>) on a plain object: the own property, else the
  property of \<open>Object.prototype\<close> with that name, else \<open>undefined\<close>. The
  properties of \<open>Object.prototype\<close> are its methods and the \<open>__proto__\<close>
  accessor, which yields \<open>Object.prototype\<close> itself: every one is a truthy
  value without an \<open>originalUrl\<close> or \<open>clicks\<close> property.
\<close>

datatype 'v prop_read = OwnProp 'v | Inherited | Undefined

definition object_prototype_keys :: "js_string list" where
  "object_prototype_keys =
     [''constructor'', ''__defineGetter__'', ''__defineSetter__'', ''hasOwnProperty'',
      ''__lookupGetter__'', ''__lookupSetter__'', ''isPrototypeOf'', ''propertyIsEnumerable'',
      ''toString'', ''valueOf'', ''__proto__'', ''toLocaleString'']"

definition obj_get :: "'v jsobj \<Rightarrow> js_string \<Rightarrow> 'v prop_read" where
  "obj_get m k =
     (case map_of m k of
        Some v \<Rightarrow> OwnProp v
      | None \<Rightarrow> if k \<in> set object_prototype_keys then Inherited else Undefined)"

subsection \<open>Property reads\<close>

lemma obj_get_own [obj_simps]: "map_of m k = Some v \<Longrightarrow> obj_get m k = OwnProp v"
  by (simp add: obj_get_def)

lemma obj_get_absent [obj_simps]:
  "map_of m k = None \<Longrightarrow> k \<notin> set object_prototype_keys \<Longrightarrow> obj_get m k = Undefined"
  by (simp add: obj_get_def)

lemma obj_get_inherited [obj_simps]:
  "map_of m k = None \<Longrightarrow> k \<in> set object_prototype_keys \<Longrightarrow> obj_get m k = Inherited"
  by (simp add: obj_get_def)

lemma obj_get_Inherited: "obj_get m k = Inherited \<Longrightarrow> map_of m k = None \<and> k \<in> set object_prototype_keys"
  by (simp add: obj_get_def split: option.splits if_splits)

text \<open>No name of \<open>Object.prototype\<close> has six characters.\<close>

lemma object_prototype_keys_length: "k \<in> set object_prototype_keys \<Longrightarrow> length k \<noteq> 6"
  by (auto simp: object_prototype_keys_def)

subsection \<open>Enumeration order\<close>

lemma map_insort_key_fst:
  "map fst (insort_key (\<lambda>e. f (fst e)) x xs) = insort_key f (fst x) (map fst xs)"
  by (induction xs) auto

lemma map_sort_key_fst:
  "map fst (sort_key (\<lambda>e. f (fst e)) xs) = sort_key f (map fst xs)"
  by (induction xs) (simp_all add: map_insort_key_fst)

lemma obj_keys_entries: "obj_keys m = map fst (obj_entries m)"
  by (simp add: obj_keys_def own_property_keys_def obj_entries_def map_sort_key_fst
      filter_map comp_def)

lemma mset_obj_entries [simp]: "mset (obj_entries m) = mset m"
  by (simp add: obj_entries_def flip: mset_append) (simp add: multiset_partition [symmetric])

lemma set_obj_entries [simp]: "set (obj_entries m) = set m"
  by (metis mset_obj_entries set_mset_mset)

lemma obj_wf_entries [simp]: "obj_wf (obj_entries m) = obj_wf m"
proof -
  have "mset (map fst (obj_entries m)) = mset (map fst m)" by simp
  then show ?thesis unfolding obj_wf_def by (rule mset_eq_imp_distinct_iff)
qed

lemma map_of_obj_entries: "obj_wf m \<Longrightarrow> map_of (obj_entries m) = map_of m"
  by (simp add: map_of_inject_set obj_wf_def [symmetric])

lemma obj_entries_idem [simp]: "obj_entries (obj_entries m) = obj_entries m"
proof -
  let ?f = "\<lambda>e. nat_of_digits (fst e)" and ?P = "\<lambda>e. is_array_index (fst e)"
  have "filter ?P (obj_entries m) = sort_key ?f (filter ?P m)"
    by (simp add: obj_entries_def filter_sort)
  moreover have "filter (\<lambda>e. \<not> ?P e) (obj_entries m) = filter (\<lambda>e. \<not> ?P e) m"
    by (simp add: obj_entries_def filter_sort)
  ultimately show ?thesis
    by (simp add: obj_entries_def [of "obj_entries m"] sort_key_id_if_sorted)
       (simp add: obj_entries_def)
qed

lemma own_property_keys_removeAll:
  "own_property_keys (removeAll k ks) = removeAll k (own_property_keys ks)"
  by (simp add: own_property_keys_def removeAll_filter_not_eq filter_sort [symmetric])
     (simp add: conj_commute)

lemma update_append_new:
  "k \<notin> fst ` set m \<Longrightarrow> AList.update k v m = m @ [(k, v)]"
  by (induction m) auto

lemma obj_keys_update_existing [obj_simps]:
  "k \<in> fst ` set m \<Longrightarrow> obj_keys (AList.update k v m) = obj_keys m"
  by (simp add: obj_keys_def update_keys image_iff)

lemma obj_keys_update_new [obj_simps]:
  "k \<notin> fst ` set m \<Longrightarrow> \<not> is_array_index k \<Longrightarrow> obj_keys (AList.update k v m) = obj_keys m @ [k]"
  by (simp add: obj_keys_def update_append_new own_property_keys_def)

lemma obj_keys_delete [obj_simps]: "obj_keys (AList.delete k m) = removeAll k (obj_keys m)"
  by (simp add: obj_keys_def delete_keys own_property_keys_removeAll)

lemma obj_keys_obj_entries [obj_simps]: "obj_keys (obj_entries m) = obj_keys m"
  by (metis obj_entries_idem obj_keys_entries)

lemma set_obj_keys [obj_simps]: "set (obj_keys m) = fst ` set m"
  by (simp add: obj_keys_entries)

lemma obj_wf_update [obj_simps]: "obj_wf m \<Longrightarrow> obj_wf (AList.update k v m)"
  by (simp add: obj_wf_def distinct_update)

lemma obj_wf_delete [obj_simps]: "obj_wf m \<Longrightarrow> obj_wf (AList.delete k m)"
  by (simp add: obj_wf_def distinct_delete)

lemma foldl_update_distinct:
  "distinct (map fst (acc @ es)) \<Longrightarrow>
   foldl (\<lambda>acc e. AList.update (fst e) (snd e) acc) acc es = acc @ es"
proof (induction es arbitrary: acc)
  case Nil
  then show ?case by simp
next
  case (Cons e es)
  then have "fst e \<notin> fst ` set acc" by auto
  then have "AList.update (fst e) (snd e) acc = acc @ [e]" by (simp add: update_append_new)
  with Cons show ?case by simp
qed

text \<open>Spread copies an object: same properties, created in enumeration order.\<close>

lemma obj_spread_entries [obj_simps]: "obj_wf m \<Longrightarrow> obj_spread m = obj_entries m"
  using foldl_update_distinct [of "[]" "obj_entries m"]
  by (simp add: obj_spread_def obj_wf_def [symmetric])

lemma length_update_new:
  "k \<notin> fst ` set m \<Longrightarrow> length (AList.update k v m) = Suc (length m)"
  by (simp add: update_append_new)

lemma length_obj_entries [simp]: "length (obj_entries m) = length m"
  using mset_obj_entries [of m] by (metis size_mset)

lemma list_all_obj_entries [simp]: "list_all P (obj_entries m) = list_all P m"
  by (simp add: list_all_iff)

lemma obj_entries_Nil [simp]: "obj_entries [] = []"
  by (simp add: obj_entries_def)

subsection \<open>Updates in place\<close>

lemma insort_key_map_keep:
  "(\<And>p. h' (f p) = h p) \<Longrightarrow> insort_key h' (f x) (map f ys) = map f (insort_key h x ys)"
  by (induction ys) auto

lemma sort_key_map_keep:
  "(\<And>p. h' (f p) = h p) \<Longrightarrow> sort_key h' (map f ys) = map f (sort_key h ys)"
  by (induction ys) (simp_all add: insort_key_map_keep)

text \<open>Changing values but not keys commutes with enumeration.\<close>

lemma obj_entries_map_keep:
  assumes "\<And>p. fst (f p) = fst p"
  shows "obj_entries (map f xs) = map f (obj_entries xs)"
proof -
  have "filter (\<lambda>e. is_array_index (fst e)) (map f xs) = map f (filter (\<lambda>e. is_array_index (fst e)) xs)"
    "filter (\<lambda>e. \<not> is_array_index (fst e)) (map f xs) = map f (filter (\<lambda>e. \<not> is_array_index (fst e)) xs)"
    by (simp_all add: filter_map comp_def assms)
  moreover have "sort_key (\<lambda>e. nat_of_digits (fst e)) (map f (filter (\<lambda>e. is_array_index (fst e)) xs))
      = map f (sort_key (\<lambda>e. nat_of_digits (fst e)) (filter (\<lambda>e. is_array_index (fst e)) xs))"
    using sort_key_map_keep [of "\<lambda>e. nat_of_digits (fst e)" f "\<lambda>e. nat_of_digits (fst e)"] assms
    by simp
  ultimately show ?thesis by (simp add: obj_entries_def)
qed

lemma map_if_key_absent:
  "k \<notin> fst ` set xs \<Longrightarrow> map (\<lambda>p. if fst p = k then q else p) xs = xs"
  by (induction xs) auto

lemma update_distinct_map:
  "distinct (map fst xs) \<Longrightarrow> k \<in> fst ` set xs \<Longrightarrow>
   AList.update k v xs = map (\<lambda>p. if fst p = k then (k, v) else p) xs"
proof (induction xs)
  case (Cons p xs)
  show ?case
  proof (cases "fst p = k")
    case True
    with Cons.prems have "k \<notin> fst ` set xs" by auto
    with True show ?thesis by (cases p) (simp add: map_if_key_absent)
  next
    case False
    with Cons show ?thesis by (cases p) simp
  qed
qed simp

lemma update_at_index:
  assumes "distinct (map fst xs)" and "i < length xs" and "fst (xs ! i) = k"
  shows "AList.update k v xs = xs[i := (k, v)]"
proof -
  have kin: "k \<in> fst ` set xs" using assms(2,3) nth_mem by blast
  show ?thesis
  proof (rule nth_equalityI)
  fix j assume "j < length (AList.update k v xs)"
  then have j: "j < length xs" using update_distinct_map [OF assms(1) kin] by simp
  have "fst (xs ! j) = k \<longleftrightarrow> j = i"
    using assms j nth_eq_iff_index_eq [of "map fst xs" j i] by auto
  then show "AList.update k v xs ! j = xs[i := (k, v)] ! j"
    using assms j by (simp add: update_distinct_map [OF assms(1) kin])
  qed (simp add: update_distinct_map [OF assms(1) kin])
qed

lemma obj_entries_update_entries:
  assumes "obj_wf m" and "k \<in> fst ` set m"
  shows "obj_entries (AList.update k v (obj_entries m)) = AList.update k v (obj_entries m)"
proof -
  have d: "distinct (map fst (obj_entries m))" using assms obj_wf_entries [of m] by (simp add: obj_wf_def)
  have kin: "k \<in> fst ` set (obj_entries m)" using assms(2) by simp
  show ?thesis unfolding update_distinct_map [OF d kin] by (subst obj_entries_map_keep) auto
qed

lemma obj_entries_delete: "obj_entries (AList.delete k xs) = AList.delete k (obj_entries xs)"
  by (simp add: obj_entries_def AList.delete_eq filter_sort [symmetric]) (simp add: conj_commute)

subsection \<open>Array indices\<close>

lemma nat_of_digits_single [simp]: "nat_of_digits [c] = digit_val c"
  using nat_of_digits_snoc [of "[]" c] by simp







end
