(* ===== verification/JsNumber.thy ===== *)
theory JsNumber
  imports Prelude
begin

text \<open>
  JavaScript numbers are IEEE-754 doubles. The click counters of the component are
  non-negative integers, and the only arithmetic on them is \<open>entry.clicks + 1\<close>
  (\<open>src/src/UrlShortener.jsx\<close>, line 72). The exact sum is rounded to the
  nearest double, ties to even: integers up to \<open>2^53\<close> are exact, above that the
  spacing of doubles is \<open>2^(bitlen n - 53)\<close>. The model keeps the counter as a
  \<open>nat\<close> and writes that rounding out (\<open>dbl_round\<close>); the overflow to
  \<open>Infinity\<close> above \<open>2^1024\<close> is not modelled, as no counter gets near it.
\<close>

fun bitlen :: "nat \<Rightarrow> nat" where
  "bitlen n = (if n = 0 then 0 else Suc (bitlen (n div 2)))"

declare bitlen.simps [simp del]

definition dbl_round :: "nat \<Rightarrow> nat" where
  "dbl_round n =
     (if bitlen n \<le> 53 then n
      else let k = bitlen n - 53; q = n div 2 ^ k; r = n mod 2 ^ k; h = 2 ^ (k - 1)
           in (if h < r \<or> (r = h \<and> odd q) then q + 1 else q) * 2 ^ k)"

text \<open>\<open>n + 1\<close> on a double holding the integer \<open>n\<close>.\<close>

definition js_incr :: "nat \<Rightarrow> nat" where
  "js_incr n = dbl_round (n + 1)"

text \<open>
  The double nearest to the positive rational \<open>a / b\<close> (ECMAScript's
  "Number value for x", as \<open>JSON.parse\<close> reads a number literal), as a
  significand \<open>q\<close> and an exponent \<open>s\<close> of two, the value being
  \<open>q * 2 powr s\<close>: \<open>e\<close> is \<open>\<lfloor>log2 (a / b)\<rfloor>\<close>, the spacing of doubles
  there is \<open>2^(e - 52)\<close>, or \<open>2^-1074\<close> among the subnormals, and the quotient
  by it is rounded to nearest, ties to even. A result of \<open>2^1024\<close> or more
  overflows to \<open>Infinity\<close>; \<open>q = 0\<close> is an underflow to zero.
\<close>

definition dbl_nearest :: "nat \<Rightarrow> nat \<Rightarrow> nat \<times> int" where
  "dbl_nearest a b =
     (let c = int (bitlen a) - int (bitlen b);
          e = (if (if 0 \<le> c then b * 2 ^ nat c \<le> a else b \<le> a * 2 ^ nat (- c)) then c else c - 1);
          s = max (e - 52) (- 1074);
          num = a * 2 ^ nat (- s); den = b * 2 ^ nat s;
          q = num div den; r = num mod den
      in (if den < 2 * r \<or> (2 * r = den \<and> odd q) then q + 1 else q, s))"

lemma bitlen_le_iff: "bitlen n \<le> k \<longleftrightarrow> n < 2 ^ k"
proof (induction n arbitrary: k rule: bitlen.induct)
  case (1 n)
  show ?case
  proof (cases "n = 0")
    case True
    then show ?thesis by (simp add: bitlen.simps)
  next
    case False
    then have eq: "bitlen n = Suc (bitlen (n div 2))" by (simp add: bitlen.simps)
    show ?thesis
    proof (cases k)
      case 0
      with False eq show ?thesis by simp
    next
      case (Suc j)
      have "bitlen (n div 2) \<le> j \<longleftrightarrow> n div 2 < 2 ^ j" using "1.IH" False by simp
      also have "\<dots> \<longleftrightarrow> n < 2 ^ Suc j" by auto
      finally show ?thesis using eq Suc by simp
    qed
  qed
qed

lemma bitlen_eq: "2 ^ k \<le> n \<Longrightarrow> n < 2 ^ Suc k \<Longrightarrow> bitlen n = Suc k"
  using bitlen_le_iff [of n k] bitlen_le_iff [of n "Suc k"] by simp

lemma dbl_round_exact: "n \<le> 2 ^ 53 \<Longrightarrow> dbl_round n = n"
proof (cases "n < 2 ^ 53")
  case True
  then show ?thesis by (simp add: dbl_round_def bitlen_le_iff)
next
  case False
  moreover assume "n \<le> 2 ^ 53"
  ultimately have n: "n = 2 ^ 53" by simp
  have "bitlen n = 54" using bitlen_eq [of 53 n] n by simp
  then show ?thesis using n by (simp add: dbl_round_def)
qed

lemma js_incr_exact: "n < 2 ^ 53 \<Longrightarrow> js_incr n = n + 1"
  by (simp add: js_incr_def dbl_round_exact)

lemma js_incr_saturates: "js_incr (2 ^ 53) = 2 ^ 53"
proof -
  have "bitlen (2 ^ 53 + 1 :: nat) = Suc 53" by (rule bitlen_eq) simp_all
  then show ?thesis by (simp add: js_incr_def dbl_round_def)
qed

lemma js_incr_le: "n \<le> 2 ^ 53 \<Longrightarrow> js_incr n \<le> 2 ^ 53"
proof (cases "n < 2 ^ 53")
  case True
  then show ?thesis by (simp add: js_incr_exact)
next
  case False
  moreover assume "n \<le> 2 ^ 53"
  ultimately have "n = 2 ^ 53" by simp
  then show ?thesis using js_incr_saturates by simp
qed

end
