(* ===== verification/Json.thy ===== *)
theory Json
  imports Prelude
begin

text \<open>
  The JSON text of the persisted store. \<open>JSON.stringify\<close> and \<open>JSON.parse\<close> are
  the browser's; the component calls them on lines 26 and 30 of
  \<open>src/src/UrlShortener.jsx\<close>. Values are the JSON data model; a number is kept
  as its exact decimal value, an integer (\<open>JNum\<close>) or \<open>m / 10^k\<close> in lowest
  terms (\<open>JFrac\<close>), and the rounding to a double is applied where the component
  reads it (\<open>Store\<close>). The printer is \<open>JSON.stringify\<close> without indentation:
  strings are quoted with \<open>\"\<close>, \<open>\\\<close> and the control characters escaped
  (\<open>\b \f \n \r \t\<close> or \<open>\u00XX\<close> in lowercase hexadecimal), members
  separated by \<open>,\<close> with no whitespace, integers in decimal, other numbers in
  decimal notation (what \<open>JSON.stringify\<close> prints for decimals of at most 15
  significant digits between \<open>10^-6\<close> and \<open>10^21\<close>). The parser is
  \<open>JSON.parse\<close>: whitespace (space, tab, LF, CR) between tokens, every escape of
  the grammar, the full number grammar (sign, fraction, exponent; proved equivalent
  to the grammar of ECMA-404, \<open>parse_number_grammar\<close>), \<open>SyntaxError\<close> as
  \<open>None\<close>. A number followed by a character that could continue it is rejected at
  the number rather than by the enclosing grammar: the result, a \<open>SyntaxError\<close>,
  is the same.
\<close>

datatype json =
    JNull
  | JBool bool
  | JNum int
  | JFrac int nat
  | JStr js_string
  | JArr "json list"
  | JObj "(js_string \<times> json) list"

definition bslash :: char where "bslash = CHR 0x5C"
definition dquote :: char where "dquote = CHR 0x22"

definition hex_digit :: "nat \<Rightarrow> char" where
  "hex_digit d = (if d < 10 then char_of (48 + d) else char_of (87 + d))"

definition json_escape_char :: "char \<Rightarrow> js_string" where
  "json_escape_char c =
     (if c = dquote then [bslash, dquote]
      else if c = bslash then [bslash, bslash]
      else if c = CHR 0x08 then [bslash, CHR ''b'']
      else if c = CHR 0x0C then [bslash, CHR ''f'']
      else if c = CHR 0x0A then [bslash, CHR ''n'']
      else if c = CHR 0x0D then [bslash, CHR ''r'']
      else if c = CHR 0x09 then [bslash, CHR ''t'']
      else if (of_char c :: nat) < 32
      then [bslash, CHR ''u'', CHR ''0'', CHR ''0'', hex_digit (of_char c div 16), hex_digit (of_char c mod 16)]
      else [c])"

definition json_quote :: "js_string \<Rightarrow> js_string" where
  "json_quote s = dquote # concat (map json_escape_char s) @ [dquote]"

definition string_of_int :: "int \<Rightarrow> js_string" where
  "string_of_int i = (if i < 0 then CHR ''-'' # string_of_nat (nat (- i)) else string_of_nat (nat i))"

text \<open>
  A number that is not an integer, \<open>m / 10^k\<close>, in decimal notation: the digits
  of \<open>|m|\<close>, padded with zeros to at least \<open>k + 1\<close> digits, with the point
  before the last \<open>k\<close>.
\<close>

definition decimal_text :: "int \<Rightarrow> nat \<Rightarrow> js_string" where
  "decimal_text m k =
     (let ds = replicate (Suc k - length (string_of_nat (nat \<bar>m\<bar>))) (CHR ''0'') @ string_of_nat (nat \<bar>m\<bar>)
      in (if m < 0 then ''-'' else []) @ take (length ds - k) ds @ CHR ''.'' # drop (length ds - k) ds)"

fun join_with :: "js_string \<Rightarrow> js_string list \<Rightarrow> js_string" where
  "join_with sep [] = []"
| "join_with sep [x] = x"
| "join_with sep (x # xs) = x @ sep @ join_with sep xs"

fun json_print :: "json \<Rightarrow> js_string" where
  "json_print JNull = ''null''"
| "json_print (JBool b) = (if b then ''true'' else ''false'')"
| "json_print (JNum i) = string_of_int i"
| "json_print (JFrac m k) = decimal_text m k"
| "json_print (JStr s) = json_quote s"
| "json_print (JArr vs) = ''['' @ join_with '','' (map json_print vs) @ '']''"
| "json_print (JObj ps) =
     ''{'' @ join_with '','' (map (\<lambda>p. json_quote (fst p) @ '':'' @ json_print (snd p)) ps) @ ''}''"

subsection \<open>JSON.parse\<close>

definition is_json_ws :: "char \<Rightarrow> bool" where
  "is_json_ws c \<longleftrightarrow> c \<in> set [CHR 0x20, CHR 0x09, CHR 0x0A, CHR 0x0D]"

definition skip_ws :: "js_string \<Rightarrow> js_string" where
  "skip_ws s = dropWhile is_json_ws s"

definition hex_val :: "char \<Rightarrow> nat option" where
  "hex_val c =
     (let n = (of_char c :: nat) in
      if 48 \<le> n \<and> n \<le> 57 then Some (n - 48)
      else if 97 \<le> n \<and> n \<le> 102 then Some (n - 87)
      else if 65 \<le> n \<and> n \<le> 70 then Some (n - 55)
      else None)"

text \<open>
  The code unit of a \<open>\uXXXX\<close> escape; a code unit above 255 has no \<open>char\<close>
  in the model, so such an escape is rejected here.
\<close>

definition unicode_escape :: "js_string \<Rightarrow> char option" where
  "unicode_escape hs =
     (case map hex_val hs of
        [Some a, Some b, Some c, Some d] \<Rightarrow>
          (let v = ((a * 16 + b) * 16 + c) * 16 + d in if v < 256 then Some (char_of v) else None)
      | _ \<Rightarrow> None)"

text \<open>The escape after a backslash: the character and how many more characters it uses.\<close>

definition unescape :: "char \<Rightarrow> js_string \<Rightarrow> (char \<times> nat) option" where
  "unescape e rest =
     (if e = dquote then Some (dquote, 0)
      else if e = bslash then Some (bslash, 0)
      else if e = CHR ''/'' then Some (CHR ''/'', 0)
      else if e = CHR ''b'' then Some (CHR 0x08, 0)
      else if e = CHR ''f'' then Some (CHR 0x0C, 0)
      else if e = CHR ''n'' then Some (CHR 0x0A, 0)
      else if e = CHR ''r'' then Some (CHR 0x0D, 0)
      else if e = CHR ''t'' then Some (CHR 0x09, 0)
      else if e = CHR ''u'' then map_option (\<lambda>c. (c, 4)) (unicode_escape (take 4 rest))
      else None)"

text \<open>The characters of a string literal up to its closing quote.\<close>

function parse_chars :: "js_string \<Rightarrow> (js_string \<times> js_string) option" where
  "parse_chars [] = None"
| "parse_chars (c # cs) =
     (if c = dquote then Some ([], cs)
      else if c = bslash then
        (case cs of
           [] \<Rightarrow> None
         | e # rest \<Rightarrow>
             (case unescape e rest of
                None \<Rightarrow> None
              | Some (ch, k) \<Rightarrow> map_option (\<lambda>(s, r). (ch # s, r)) (parse_chars (drop k rest))))
      else if (of_char c :: nat) < 32 then None
      else map_option (\<lambda>(s, r). (c # s, r)) (parse_chars cs))"
  by pat_completeness auto
termination
  by (relation "measure length") auto

definition is_number_tail :: "js_string \<Rightarrow> bool" where
  "is_number_tail r = (case r of [] \<Rightarrow> False | c # _ \<Rightarrow> c \<in> set ''.eE'' \<or> is_digit c)"

text \<open>
  The optional fraction \<open>. digits\<close> and exponent \<open>e [+-] digits\<close> of a number.
\<close>

definition parse_frac :: "js_string \<Rightarrow> (js_string \<times> js_string) option" where
  "parse_frac r =
     (case r of
        c # t \<Rightarrow>
          if c = CHR ''.'' then
            (let fs = takeWhile is_digit t in if fs = [] then None else Some (fs, drop (length fs) t))
          else Some ([], r)
      | [] \<Rightarrow> Some ([], r))"

definition parse_exp :: "js_string \<Rightarrow> (int \<times> js_string) option" where
  "parse_exp r =
     (case r of
        c # t \<Rightarrow>
          if c = CHR ''e'' \<or> c = CHR ''E'' then
            (let neg = (case t of d # _ \<Rightarrow> d = CHR ''-'' | [] \<Rightarrow> False);
                 t1 = (case t of d # u \<Rightarrow> if d = CHR ''-'' \<or> d = CHR ''+'' then u else t | [] \<Rightarrow> t);
                 ds = takeWhile is_digit t1
             in if ds = [] then None
                else Some (if neg then - int (nat_of_digits ds) else int (nat_of_digits ds), drop (length ds) t1))
          else Some (0, r)
      | [] \<Rightarrow> Some (0, r))"

text \<open>\<open>m / 10^k\<close> in lowest terms with respect to factors of ten.\<close>

fun strip_zeros :: "int \<Rightarrow> nat \<Rightarrow> int \<times> nat" where
  "strip_zeros m 0 = (m, 0)"
| "strip_zeros m (Suc k) = (if 10 dvd m then strip_zeros (m div 10) k else (m, Suc k))"

text \<open>
  The value of a number literal with sign, integer digits, fraction digits and
  exponent: an integer, or \<open>m / 10^k\<close> with \<open>k > 0\<close> and \<open>m\<close> not a
  multiple of ten.
\<close>

definition number_value :: "bool \<Rightarrow> js_string \<Rightarrow> js_string \<Rightarrow> int \<Rightarrow> json" where
  "number_value neg ds fs e =
     (let m0 = int (nat_of_digits (ds @ fs)); m = (if neg then - m0 else m0); x = e - int (length fs)
      in if 0 \<le> x then JNum (m * 10 ^ nat x)
         else (case strip_zeros m (nat (- x)) of (m', 0) \<Rightarrow> JNum m' | (m', k) \<Rightarrow> JFrac m' k))"

definition parse_number :: "js_string \<Rightarrow> (json \<times> js_string) option" where
  "parse_number s =
     (let neg = (case s of c # _ \<Rightarrow> c = CHR ''-'' | [] \<Rightarrow> False);
          s1 = (if neg then tl s else s);
          ds = takeWhile is_digit s1; r1 = drop (length ds) s1
      in if ds = [] \<or> (hd ds = CHR ''0'' \<and> length ds > 1) then None
         else (case parse_frac r1 of
                 None \<Rightarrow> None
               | Some (fs, r2) \<Rightarrow>
                   (case parse_exp r2 of
                      None \<Rightarrow> None
                    | Some (e, r3) \<Rightarrow> if is_number_tail r3 then None else Some (number_value neg ds fs e, r3))))"

fun parse_value :: "nat \<Rightarrow> js_string \<Rightarrow> (json \<times> js_string) option"
and parse_members :: "nat \<Rightarrow> js_string \<Rightarrow> ((js_string \<times> json) list \<times> js_string) option"
and parse_elements :: "nat \<Rightarrow> js_string \<Rightarrow> (json list \<times> js_string) option" where
  "parse_value 0 s = None"
| "parse_value (Suc n) s =
     (case skip_ws s of
        [] \<Rightarrow> None
      | c # cs \<Rightarrow>
          if c = CHR ''{'' then
            (case skip_ws cs of
               d # r \<Rightarrow> if d = CHR ''}'' then Some (JObj [], r)
                        else map_option (\<lambda>(ps, r). (JObj ps, r)) (parse_members n cs)
             | [] \<Rightarrow> None)
          else if c = CHR ''['' then
            (case skip_ws cs of
               d # r \<Rightarrow> if d = CHR '']'' then Some (JArr [], r)
                        else map_option (\<lambda>(vs, r). (JArr vs, r)) (parse_elements n cs)
             | [] \<Rightarrow> None)
          else if c = dquote then map_option (\<lambda>(str, r). (JStr str, r)) (parse_chars cs)
          else if take 4 (c # cs) = ''true'' then Some (JBool True, drop 4 (c # cs))
          else if take 5 (c # cs) = ''false'' then Some (JBool False, drop 5 (c # cs))
          else if take 4 (c # cs) = ''null'' then Some (JNull, drop 4 (c # cs))
          else parse_number (c # cs))"
| "parse_members 0 s = None"
| "parse_members (Suc n) s =
     (case skip_ws s of
        c # cs \<Rightarrow>
          if c \<noteq> dquote then None else
          (case parse_chars cs of
             None \<Rightarrow> None
           | Some (k, r1) \<Rightarrow>
               (case skip_ws r1 of
                  d # r2 \<Rightarrow>
                    if d \<noteq> CHR '':'' then None else
                    (case parse_value n r2 of
                       None \<Rightarrow> None
                     | Some (v, r3) \<Rightarrow>
                         (case skip_ws r3 of
                            e # r4 \<Rightarrow>
                              if e = CHR '','' then map_option (\<lambda>(ps, r). ((k, v) # ps, r)) (parse_members n r4)
                              else if e = CHR ''}'' then Some ([(k, v)], r4)
                              else None
                          | [] \<Rightarrow> None))
                | [] \<Rightarrow> None))
      | [] \<Rightarrow> None)"
| "parse_elements 0 s = None"
| "parse_elements (Suc n) s =
     (case parse_value n s of
        None \<Rightarrow> None
      | Some (v, r1) \<Rightarrow>
          (case skip_ws r1 of
             e # r2 \<Rightarrow>
               if e = CHR '','' then map_option (\<lambda>(vs, r). (v # vs, r)) (parse_elements n r2)
               else if e = CHR '']'' then Some ([v], r2)
               else None
           | [] \<Rightarrow> None))"

text \<open>\<open>JSON.parse\<close>: one value, then only whitespace; \<open>None\<close> is a \<open>SyntaxError\<close>.\<close>

definition json_parse :: "js_string \<Rightarrow> json option" where
  "json_parse s =
     (case parse_value (Suc (length s)) s of
        Some (v, r) \<Rightarrow> if skip_ws r = [] then Some v else None
      | None \<Rightarrow> None)"

text \<open>The fuel a printed value needs, and the characters that may follow a value.\<close>

definition value_end :: "js_string \<Rightarrow> bool" where
  "value_end r = (case r of [] \<Rightarrow> True | c # _ \<Rightarrow> c \<in> set '',}]'')"

text \<open>
  The numbers \<open>JSON.parse\<close> produces are integers or decimals in lowest terms:
  \<open>JFrac m k\<close> with \<open>k > 0\<close> and \<open>m\<close> not a multiple of ten.
\<close>

fun json_ok :: "json \<Rightarrow> bool" where
  "json_ok (JFrac m k) \<longleftrightarrow> 0 < k \<and> \<not> 10 dvd m"
| "json_ok (JArr vs) \<longleftrightarrow> list_all json_ok vs"
| "json_ok (JObj ps) \<longleftrightarrow> list_all (\<lambda>p. json_ok (snd p)) ps"
| "json_ok _ \<longleftrightarrow> True"

fun jfuel :: "json \<Rightarrow> nat" where
  "jfuel (JArr vs) = Suc (sum_list (map jfuel vs) + length vs)"
| "jfuel (JObj ps) = Suc (sum_list (map (\<lambda>p. jfuel (snd p)) ps) + length ps)"
| "jfuel _ = 1"

subsection \<open>The number grammar\<close>

text \<open>
  The grammar of JSON numbers (ECMA-404), the reference the scanner
  \<open>parse_number\<close> is proved equivalent to: an optional minus, integer digits
  without leading zeros, an optional fraction and an optional exponent.
\<close>

definition is_digits :: "js_string \<Rightarrow> bool" where
  "is_digits ds \<longleftrightarrow> ds \<noteq> [] \<and> list_all is_digit ds"

definition is_int_digits :: "js_string \<Rightarrow> bool" where
  "is_int_digits ds \<longleftrightarrow> is_digits ds \<and> (hd ds = CHR ''0'' \<longrightarrow> length ds = 1)"

inductive frac_lit :: "js_string \<Rightarrow> js_string \<Rightarrow> bool" where
  frac_none: "frac_lit [] []"
| frac_digits: "is_digits fs \<Longrightarrow> frac_lit (CHR ''.'' # fs) fs"

inductive exp_lit :: "js_string \<Rightarrow> int \<Rightarrow> bool" where
  exp_none: "exp_lit [] 0"
| exp_pos: "c \<in> {CHR ''e'', CHR ''E''} \<Longrightarrow> sg \<in> {[], ''+''} \<Longrightarrow> is_digits ds \<Longrightarrow>
            exp_lit (c # sg @ ds) (int (nat_of_digits ds))"
| exp_neg: "c \<in> {CHR ''e'', CHR ''E''} \<Longrightarrow> is_digits ds \<Longrightarrow>
            exp_lit (c # CHR ''-'' # ds) (- int (nat_of_digits ds))"

inductive number_lit :: "js_string \<Rightarrow> json \<Rightarrow> bool" where
  "sg \<in> {[], ''-''} \<Longrightarrow> is_int_digits ds \<Longrightarrow> frac_lit fx fs \<Longrightarrow> exp_lit ex e \<Longrightarrow>
   number_lit (sg @ ds @ fx @ ex) (number_value (sg = ''-'') ds fs e)"

text \<open>What may follow a number: the characters that would continue it.\<close>

definition digit_start :: "js_string \<Rightarrow> bool" where
  "digit_start w = (case w of [] \<Rightarrow> False | c # _ \<Rightarrow> is_digit c)"

definition dot_start :: "js_string \<Rightarrow> bool" where
  "dot_start w = (case w of [] \<Rightarrow> False | c # _ \<Rightarrow> c = CHR ''.'')"

subsection \<open>Printing and parsing\<close>

lemma hex_val_hex_digit: "d < 16 \<Longrightarrow> hex_val (hex_digit d) = Some d"
  by (cases "d < 10") (simp_all add: hex_val_def hex_digit_def)

lemma hex_val_zero: "hex_val (CHR ''0'') = Some 0"
  by (simp add: hex_val_def)

lemma unicode_escape_char:
  assumes "(of_char c :: nat) < 32"
  shows "unicode_escape [CHR ''0'', CHR ''0'', hex_digit (of_char c div 16), hex_digit (of_char c mod 16)] = Some c"
proof -
  let ?n = "of_char c :: nat"
  have "?n div 16 < 16" using assms by simp
  moreover have "?n mod 16 < 16" by simp
  ultimately have "map hex_val [CHR ''0'', CHR ''0'', hex_digit (?n div 16), hex_digit (?n mod 16)]
     = [Some 0, Some 0, Some (?n div 16), Some (?n mod 16)]"
    using hex_val_hex_digit by (simp add: hex_val_zero)
  moreover have "((0 * 16 + 0) * 16 + ?n div 16) * 16 + ?n mod 16 = ?n" by simp
  ultimately show ?thesis using assms by (simp add: unicode_escape_def)
qed

lemma parse_chars_escape_char:
  "parse_chars (json_escape_char c @ r) = map_option (\<lambda>(s, r'). (c # s, r')) (parse_chars r)"
proof -
  consider "c = dquote" | "c = bslash" | "c = CHR 0x08" | "c = CHR 0x0C" | "c = CHR 0x0A"
    | "c = CHR 0x0D" | "c = CHR 0x09"
    | "c \<notin> {dquote, bslash, CHR 0x08, CHR 0x0C, CHR 0x0A, CHR 0x0D, CHR 0x09}" "(of_char c :: nat) < 32"
    | "c \<notin> {dquote, bslash, CHR 0x08, CHR 0x0C, CHR 0x0A, CHR 0x0D, CHR 0x09}" "\<not> (of_char c :: nat) < 32"
    by blast
  then show ?thesis
  proof cases
    case 8
    then show ?thesis
      by (simp add: json_escape_char_def unescape_def bslash_def dquote_def unicode_escape_char)
  qed (simp_all add: json_escape_char_def unescape_def bslash_def dquote_def)
qed

lemma parse_chars_quote:
  "parse_chars (concat (map json_escape_char s) @ dquote # r) = Some (s, r)"
  by (induction s) (simp_all add: parse_chars_escape_char)

lemma takeWhile_digits_string_of_nat:
  "\<not> is_number_tail r \<Longrightarrow> takeWhile is_digit (string_of_nat n @ r) = string_of_nat n"
  by (auto simp: takeWhile_append2 string_of_nat_digits is_number_tail_def split: list.splits)

lemma takeWhile_digits_append:
  "list_all is_digit ds \<Longrightarrow> \<not> digit_start w \<Longrightarrow> takeWhile is_digit (ds @ w) = ds"
  by (auto simp: takeWhile_append2 list_all_iff digit_start_def split: list.splits)

lemma not_tail_digit_start: "\<not> is_number_tail r \<Longrightarrow> \<not> digit_start r"
  by (auto simp: is_number_tail_def digit_start_def split: list.splits)

lemma parse_frac_exp_none:
  "\<not> is_number_tail r \<Longrightarrow> parse_frac r = Some ([], r)"
  "\<not> is_number_tail r \<Longrightarrow> parse_exp r = Some (0, r)"
  by (auto simp: parse_frac_def parse_exp_def is_number_tail_def split: list.splits)

lemma parse_number_parts:
  assumes "ds = c # t" and "list_all is_digit ds" and "\<not> (c = CHR ''0'' \<and> t \<noteq> [])"
    and "\<not> digit_start w" and "parse_frac w = Some (fs, r2)" and "parse_exp r2 = Some (e, r)"
    and "\<not> is_number_tail r"
  shows "parse_number (ds @ w) = Some (number_value False ds fs e, r)"
    and "parse_number (CHR ''-'' # ds @ w) = Some (number_value True ds fs e, r)"
proof -
  have c: "is_digit c" "c \<noteq> CHR ''-''" using assms(1,2) by (auto simp: is_digit_def)
  have tw: "takeWhile is_digit (ds @ w) = ds" using takeWhile_digits_append [OF assms(2,4)] .
  show "parse_number (ds @ w) = Some (number_value False ds fs e, r)"
    unfolding parse_number_def Let_def using assms(1,3,5,6,7) c tw by simp
  show "parse_number (CHR ''-'' # ds @ w) = Some (number_value True ds fs e, r)"
    unfolding parse_number_def Let_def using assms(1,3,5,6,7) tw by simp
qed

lemma number_value_int:
  "number_value neg ds [] 0 = JNum (if neg then - int (nat_of_digits ds) else int (nat_of_digits ds))"
  by (simp add: number_value_def)

lemma parse_number_string_of_int:
  assumes "\<not> is_number_tail r"
  shows "parse_number (string_of_int i @ r) = Some (JNum i, r)"
proof -
  obtain c t where ct: "string_of_nat (nat \<bar>i\<bar>) = c # t" "list_all is_digit (string_of_nat (nat \<bar>i\<bar>))"
    "\<not> (c = CHR ''0'' \<and> t \<noteq> [])"
    using string_of_nat_canonical by blast
  show ?thesis
  proof (cases "i < 0")
    case True
    then show ?thesis
      using parse_number_parts(2) [OF ct _ parse_frac_exp_none assms] not_tail_digit_start [OF assms] assms
      by (simp add: string_of_int_def number_value_int)
  next
    case False
    then show ?thesis
      using parse_number_parts(1) [OF ct _ parse_frac_exp_none assms] not_tail_digit_start [OF assms] assms
      by (simp add: string_of_int_def number_value_int)
  qed
qed

subsection \<open>Decimal numbers\<close>

lemma nat_of_digits_append:
  "nat_of_digits (xs @ ys) = nat_of_digits xs * 10 ^ length ys + nat_of_digits ys"
proof (induction ys rule: rev_induct)
  case (snoc y ys)
  then show ?case by (simp only: append_assoc [symmetric] nat_of_digits_snoc) (simp add: algebra_simps)
qed simp

lemma nat_of_digits_zero: "nat_of_digits ''0'' = 0"
  by (simp add: nat_of_digits_def digit_val_def)

lemma nat_of_digits_zeros: "nat_of_digits (replicate n (CHR ''0'') @ s) = nat_of_digits s"
proof (induction n)
  case (Suc n)
  have "replicate (Suc n) (CHR ''0'') @ s = [CHR ''0''] @ (replicate n (CHR ''0'') @ s)" by simp
  then show ?case using Suc nat_of_digits_append [of "[CHR ''0'']" "replicate n (CHR ''0'') @ s"]
    by (simp add: nat_of_digits_zero)
qed simp

lemma decimal_text_parts:
  obtains ip fp where "decimal_text m k = (if m < 0 then ''-'' else []) @ ip @ CHR ''.'' # fp"
    "ip \<noteq> []" "length fp = k" "list_all is_digit (ip @ fp)"
    "nat_of_digits (ip @ fp) = nat \<bar>m\<bar>"
    "m \<noteq> 0 \<Longrightarrow> hd ip = CHR ''0'' \<Longrightarrow> length ip = 1"
proof -
  define S where "S = string_of_nat (nat \<bar>m\<bar>)"
  define D where "D = replicate (Suc k - length S) (CHR ''0'') @ S"
  have len: "Suc k \<le> length D" by (simp add: D_def)
  then have Dne: "D \<noteq> []" by auto
  have dig: "list_all is_digit D"
    using string_of_nat_digits [of _ "nat \<bar>m\<bar>"] by (auto simp: D_def S_def list_all_iff is_digit_def)
  have val: "nat_of_digits D = nat \<bar>m\<bar>" by (simp add: D_def S_def nat_of_digits_zeros)
  have lz: "length (take (length D - k) D) = 1"
    if m0: "m \<noteq> 0" and h: "hd (take (length D - k) D) = CHR ''0''"
  proof (cases "length S \<le> k")
    case True
    then show ?thesis by (simp add: D_def)
  next
    case False
    then have D: "D = S" by (simp add: D_def)
    obtain c t where ct: "S = c # t" "\<not> (c = CHR ''0'' \<and> t \<noteq> [])"
      using string_of_nat_canonical [of "nat \<bar>m\<bar>"] by (auto simp: S_def)
    have "hd (take (length D - k) D) = c" using False ct(1) D by simp
    with h ct have "S = ''0''" by simp
    then have "nat \<bar>m\<bar> = 0" using nat_of_string_of_nat [of "nat \<bar>m\<bar>"] by (simp add: S_def [symmetric] nat_of_digits_zero)
    with m0 show ?thesis by simp
  qed
  show ?thesis
  proof (rule that [of "take (length D - k) D" "drop (length D - k) D"])
    show "decimal_text m k = (if m < 0 then ''-'' else []) @ take (length D - k) D @ CHR ''.'' # drop (length D - k) D"
      by (simp add: decimal_text_def D_def S_def Let_def)
  qed (use len Dne dig val lz in simp_all)
qed

lemma decimal_text_Cons: "\<exists>c t. decimal_text m k = c # t \<and> (c = CHR ''-'' \<or> is_digit c)"
proof -
  obtain ip fp where p: "decimal_text m k = (if m < 0 then ''-'' else []) @ ip @ CHR ''.'' # fp"
    "ip \<noteq> []" "list_all is_digit (ip @ fp)"
    using decimal_text_parts by blast
  then show ?thesis by (cases ip) (auto split: if_splits)
qed

lemma strip_zeros_canonical: "\<not> 10 dvd m \<Longrightarrow> strip_zeros m k = (m, k)"
  by (cases k) simp_all

lemma parse_number_decimal:
  assumes "0 < k" and "\<not> 10 dvd m" and "\<not> is_number_tail r"
  shows "parse_number (decimal_text m k @ r) = Some (JFrac m k, r)"
proof -
  obtain ip fp where p: "decimal_text m k = (if m < 0 then ''-'' else []) @ ip @ CHR ''.'' # fp"
    "ip \<noteq> []" "length fp = k" "list_all is_digit (ip @ fp)"
    "nat_of_digits (ip @ fp) = nat \<bar>m\<bar>" "m \<noteq> 0 \<Longrightarrow> hd ip = CHR ''0'' \<Longrightarrow> length ip = 1"
    using decimal_text_parts by blast
  obtain c t where ct: "ip = c # t" using p(2) by (cases ip) auto
  have m0: "m \<noteq> 0" using assms(2) by auto
  have lz: "\<not> (c = CHR ''0'' \<and> t \<noteq> [])" using p(6) [OF m0] ct by auto
  have nd: "\<not> digit_start r" using not_tail_digit_start [OF assms(3)] .
  have fp: "fp \<noteq> []" using p(3) assms(1) by auto
  have "takeWhile is_digit (fp @ r) = fp" using takeWhile_digits_append [OF _ nd] p(4) by simp
  then have fr: "parse_frac (CHR ''.'' # fp @ r) = Some (fp, r)" using fp by (simp add: parse_frac_def)
  have ds: "\<not> digit_start (CHR ''.'' # fp @ r)" by (simp add: digit_start_def is_digit_def)
  have ip: "list_all is_digit ip" using p(4) by simp
  have v: "number_value (m < 0) ip fp 0 = JFrac m k"
  proof -
    obtain k' where k: "k = Suc k'" using assms(1) by (cases k) auto
    have "(if m < 0 then - \<bar>m\<bar> else \<bar>m\<bar>) = m" "nat (int k' + 1) = Suc k'" by simp_all
    then show ?thesis using p(3,5) assms(2) k by (simp add: number_value_def Let_def strip_zeros_canonical)
  qed
  show ?thesis
  proof (cases "m < 0")
    case True
    then show ?thesis using parse_number_parts(2) [OF ct ip lz ds fr parse_frac_exp_none(2) [OF assms(3)] assms(3)] p(1) ct v
      by simp
  next
    case False
    then show ?thesis using parse_number_parts(1) [OF ct ip lz ds fr parse_frac_exp_none(2) [OF assms(3)] assms(3)] p(1) ct v
      by simp
  qed
qed

lemma jfuel_pos: "0 < jfuel v"
  by (cases v) simp_all

lemma skip_ws_Cons: "\<not> is_json_ws c \<Longrightarrow> skip_ws (c # t) = c # t"
  by (simp add: skip_ws_def)

lemma value_end_not_tail: "value_end r \<Longrightarrow> \<not> is_number_tail r"
  by (auto simp: value_end_def is_number_tail_def is_digit_def split: list.splits)

lemma json_print_Cons:
  "\<exists>c t. json_print v = c # t \<and> \<not> is_json_ws c \<and> c \<noteq> CHR '']'' \<and> c \<noteq> CHR ''}''"
proof (cases v)
  case (JNum i)
  obtain c t where ct: "string_of_nat (nat \<bar>i\<bar>) = c # t" "list_all is_digit (string_of_nat (nat \<bar>i\<bar>))"
    using string_of_nat_canonical by blast
  then have "is_digit c" by simp
  with ct JNum show ?thesis
    by (cases "i < 0") (auto simp: string_of_int_def is_json_ws_def is_digit_def)
next
  case (JFrac m k)
  obtain c t where "decimal_text m k = c # t" "c = CHR ''-'' \<or> is_digit c"
    using decimal_text_Cons by blast
  with JFrac show ?thesis by (auto simp: is_json_ws_def is_digit_def)
qed (simp_all add: is_json_ws_def json_quote_def dquote_def)

lemma skip_ws_print: "skip_ws (json_print v @ r) = json_print v @ r"
  using json_print_Cons [of v] by (auto simp: skip_ws_Cons)

lemma value_end_simps [simp]:
  "value_end (CHR '','' # r)" "value_end (CHR '']'' # r)" "value_end (CHR ''}'' # r)"
  by (simp_all add: value_end_def)

lemma parse_elements_print:
  assumes IH: "\<forall>v\<in>set vs. \<forall>n r. value_end r \<longrightarrow> jfuel v \<le> n \<longrightarrow> parse_value n (json_print v @ r) = Some (v, r)"
    and "vs \<noteq> []" and "sum_list (map jfuel vs) + length vs \<le> m"
  shows "parse_elements m (join_with '','' (map json_print vs) @ CHR '']'' # r) = Some (vs, r)"
  using assms
proof (induction vs arbitrary: m)
  case Nil
  then show ?case by simp
next
  case (Cons v vs)
  obtain m' where m: "m = Suc m'" and f: "jfuel v + sum_list (map jfuel vs) + length vs \<le> m'"
    using Cons.prems(3) by (cases m) auto
  show ?case
  proof (cases vs)
    case Nil
    have "parse_value m' (json_print v @ CHR '']'' # r) = Some (v, CHR '']'' # r)"
      using Cons.prems(1) f by simp
    with Nil m show ?thesis by (simp add: skip_ws_Cons is_json_ws_def)
  next
    case (Cons w ws)
    have pv: "parse_value m' (json_print v @ CHR '','' # join_with '','' (map json_print vs) @ CHR '']'' # r)
              = Some (v, CHR '','' # join_with '','' (map json_print vs) @ CHR '']'' # r)"
      using Cons.prems(1) f by simp
    have "parse_elements m' (join_with '','' (map json_print vs) @ CHR '']'' # r) = Some (vs, r)"
      using Cons.IH Cons.prems(1) f \<open>vs = w # ws\<close> by simp
    with pv m \<open>vs = w # ws\<close> show ?thesis
      by (simp add: skip_ws_Cons is_json_ws_def)
  qed
qed

lemma parse_member_head:
  assumes "parse_value n (json_print v @ r) = Some (v, r)"
  shows "parse_members (Suc n) (json_quote k @ CHR '':'' # json_print v @ r) =
    (case skip_ws r of
       e # r4 \<Rightarrow>
         if e = CHR '','' then map_option (\<lambda>(ps, r). ((k, v) # ps, r)) (parse_members n r4)
         else if e = CHR ''}'' then Some ([(k, v)], r4)
         else None
     | [] \<Rightarrow> None)"
proof -
  have "parse_chars (concat (map json_escape_char k) @ dquote # CHR '':'' # json_print v @ r)
        = Some (k, CHR '':'' # json_print v @ r)"
    by (rule parse_chars_quote)
  with assms show ?thesis
    by (simp add: json_quote_def skip_ws_Cons is_json_ws_def dquote_def)
qed

lemma parse_members_print:
  assumes IH: "\<forall>v\<in>snd ` set ps. \<forall>n r. value_end r \<longrightarrow> jfuel v \<le> n \<longrightarrow> parse_value n (json_print v @ r) = Some (v, r)"
    and "ps \<noteq> []" and "sum_list (map (\<lambda>p. jfuel (snd p)) ps) + length ps \<le> m"
  shows "parse_members m (join_with '','' (map (\<lambda>p. json_quote (fst p) @ '':'' @ json_print (snd p)) ps)
           @ CHR ''}'' # r) = Some (ps, r)"
  using assms
proof (induction ps arbitrary: m)
  case Nil
  then show ?case by simp
next
  case (Cons p ps)
  obtain k v where p: "p = (k, v)" by fastforce
  obtain m' where m: "m = Suc m'" and f: "jfuel v + sum_list (map (\<lambda>p. jfuel (snd p)) ps) + length ps \<le> m'"
    using Cons.prems(3) p by (cases m) auto
  show ?case
  proof (cases ps)
    case Nil
    have "parse_value m' (json_print v @ CHR ''}'' # r) = Some (v, CHR ''}'' # r)"
      using Cons.prems(1) f p by simp
    from parse_member_head [OF this, of k] Nil m p show ?thesis
      by (simp del: parse_members.simps add: skip_ws_Cons is_json_ws_def)
  next
    case (Cons q qs)
    let ?rest = "join_with '','' (map (\<lambda>p. json_quote (fst p) @ '':'' @ json_print (snd p)) ps) @ CHR ''}'' # r"
    have pv: "parse_value m' (json_print v @ CHR '','' # ?rest) = Some (v, CHR '','' # ?rest)"
      using Cons.prems(1) f p by simp
    have "parse_members m' ?rest = Some (ps, r)"
      using Cons.IH Cons.prems(1) f \<open>ps = q # qs\<close> by simp
    with parse_member_head [OF pv, of k] m p \<open>ps = q # qs\<close> show ?thesis
      by (simp del: parse_members.simps add: skip_ws_Cons is_json_ws_def)
  qed
qed

lemma snds_snd: "snd p \<in> Basic_BNFs.snds p"
  by (cases p) simp

lemma parse_value_number:
  assumes "p = c # t" "c = CHR ''-'' \<or> is_digit c" "parse_number (p @ r) = Some (v, r)"
  shows "parse_value (Suc n) (p @ r) = Some (v, r)"
proof -
  have notkw: "c \<noteq> CHR ''t'' \<and> c \<noteq> CHR ''f'' \<and> c \<noteq> CHR ''n''"
    using assms(2) by (auto simp: is_digit_def)
  have "c \<noteq> CHR ''{'' \<and> c \<noteq> CHR ''['' \<and> c \<noteq> dquote \<and> \<not> is_json_ws c"
    using assms(2) by (auto simp: is_digit_def dquote_def is_json_ws_def)
  then show ?thesis using assms(1,3) notkw by (simp add: skip_ws_Cons)
qed

lemma parse_value_print:
  "json_ok v \<Longrightarrow> value_end r \<Longrightarrow> jfuel v \<le> n \<Longrightarrow> parse_value n (json_print v @ r) = Some (v, r)"
proof (induction v arbitrary: n r)
  case JNull
  then show ?case by (cases n) (simp_all add: skip_ws_Cons is_json_ws_def dquote_def)
next
  case (JBool b)
  then show ?case by (cases n) (simp_all add: skip_ws_Cons is_json_ws_def dquote_def)
next
  case (JNum i)
  obtain n' where n: "n = Suc n'" using JNum.prems by (cases n) auto
  obtain c t where ct: "string_of_int i = c # t"
    using json_print_Cons [of "JNum i"] by auto
  have c: "c = CHR ''-'' \<or> is_digit c"
    using ct(1) string_of_nat_canonical [of "nat \<bar>i\<bar>"]
    by (cases "i < 0") (auto simp: string_of_int_def)
  show ?case
    using parse_value_number [OF ct c] parse_number_string_of_int [OF value_end_not_tail [OF JNum.prems(2)], of i] n
    by simp
next
  case (JFrac m k)
  obtain n' where n: "n = Suc n'" using JFrac.prems by (cases n) auto
  obtain c t where ct: "decimal_text m k = c # t" "c = CHR ''-'' \<or> is_digit c"
    using decimal_text_Cons by blast
  show ?case
    using parse_value_number [OF ct] parse_number_decimal [of k m r] JFrac.prems value_end_not_tail n
    by simp
next
  case (JStr s)
  obtain n' where n: "n = Suc n'" using JStr.prems by (cases n) auto
  then show ?case
    by (simp add: json_quote_def skip_ws_Cons is_json_ws_def dquote_def parse_chars_quote [unfolded dquote_def])
next
  case (JArr vs)
  obtain n' where n: "n = Suc n'" and f: "sum_list (map jfuel vs) + length vs \<le> n'"
    using JArr.prems(3) by (cases n) auto
  have IH: "\<forall>v\<in>set vs. \<forall>n r. value_end r \<longrightarrow> jfuel v \<le> n \<longrightarrow> parse_value n (json_print v @ r) = Some (v, r)"
    using JArr.IH JArr.prems(1) by (simp add: list_all_iff)
  show ?case
  proof (cases vs)
    case Nil
    with n show ?thesis by (simp add: skip_ws_Cons is_json_ws_def)
  next
    case (Cons w ws)
    obtain c t where ct: "json_print w = c # t" "\<not> is_json_ws c" "c \<noteq> CHR '']''"
      using json_print_Cons [of w] by auto
    have "parse_elements n' (join_with '','' (map json_print vs) @ CHR '']'' # r) = Some (vs, r)"
      using parse_elements_print [OF IH _ f] Cons by blast
    then show ?thesis
      using n ct Cons by (cases ws) (simp_all add: skip_ws_Cons is_json_ws_def)
  qed
next
  case (JObj ps)
  obtain n' where n: "n = Suc n'" and f: "sum_list (map (\<lambda>p. jfuel (snd p)) ps) + length ps \<le> n'"
    using JObj.prems(3) by (cases n) auto
  show ?case
  proof (cases ps)
    case Nil
    with n show ?thesis by (simp add: skip_ws_Cons is_json_ws_def)
  next
    case (Cons p qs)
    have "parse_members n' (join_with '','' (map (\<lambda>p. json_quote (fst p) @ '':'' @ json_print (snd p)) ps)
           @ CHR ''}'' # r) = Some (ps, r)"
    proof (rule parse_members_print [OF _ _ f])
      show "\<forall>v\<in>snd ` set ps. \<forall>n r. value_end r \<longrightarrow> jfuel v \<le> n \<longrightarrow>
              parse_value n (json_print v @ r) = Some (v, r)"
      proof (intro ballI allI impI)
        fix v n r assume v: "v \<in> snd ` set ps" and "value_end r" "jfuel v \<le> n"
        from v obtain x where x: "x \<in> set ps" "v = snd x" by blast
        have "v \<in> Basic_BNFs.snds x" unfolding x(2) by (rule snds_snd)
        moreover have "json_ok v" using JObj.prems(1) x by (auto simp: list_all_iff)
        ultimately show "parse_value n (json_print v @ r) = Some (v, r)"
          using x JObj.IH \<open>value_end r\<close> \<open>jfuel v \<le> n\<close> by blast
      qed
    qed (simp add: Cons)
    then show ?thesis
      using n Cons by (cases qs) (simp_all add: json_quote_def skip_ws_Cons is_json_ws_def dquote_def)
  qed
qed

lemma length_join_with:
  "length (join_with sep xs) = sum_list (map length xs) + length sep * (length xs - 1)"
  by (induction sep xs rule: join_with.induct) auto

lemma length_json_quote: "2 \<le> length (json_quote s)"
  by (simp add: json_quote_def)

lemma jfuel_le_length: "jfuel v \<le> length (json_print v)"
proof (induction v)
  case (JArr vs)
  have "sum_list (map jfuel vs) \<le> sum_list (map (\<lambda>v. length (json_print v)) vs)"
    using JArr.IH by (intro sum_list_mono) auto
  then show ?case by (simp add: length_join_with comp_def)
next
  case (JObj ps)
  have "sum_list (map (\<lambda>p. jfuel (snd p)) ps)
        \<le> sum_list (map (\<lambda>p. length (json_quote (fst p) @ '':'' @ json_print (snd p))) ps)"
  proof (intro sum_list_mono)
    fix p assume "p \<in> set ps"
    then have "jfuel (snd p) \<le> length (json_print (snd p))"
      using snds_snd by (rule JObj.IH)
    then show "jfuel (snd p) \<le> length (json_quote (fst p) @ '':'' @ json_print (snd p))" by simp
  qed
  then show ?case by (simp add: length_join_with comp_def)
next
  case (JFrac m k)
  then show ?case using decimal_text_Cons [of m k] by auto
qed (simp_all add: json_quote_def string_of_int_def string_of_nat_nonempty Suc_le_eq)

lemma json_parse_print: "json_ok v \<Longrightarrow> json_parse (json_print v) = Some v"
  using parse_value_print [of v "[]" "Suc (length (json_print v))"] jfuel_le_length [of v]
  by (simp add: json_parse_def value_end_def skip_ws_def)

subsection \<open>Fuel\<close>

lemma length_skip_ws: "length (skip_ws s) \<le> length s"
  by (simp add: skip_ws_def length_dropWhile_le)

lemma skip_ws_Cons_shorter: "skip_ws s = c # t \<Longrightarrow> length t < length s"
  using length_skip_ws [of s] by simp

lemma parse_chars_shorter: "parse_chars s = Some (x, r) \<Longrightarrow> length r < length s"
proof (induction s arbitrary: x rule: parse_chars.induct)
  case (2 c cs)
  then show ?case
    by (auto split: if_splits list.splits option.splits prod.splits)
      (metis diff_le_self le_imp_less_Suc less_Suc_eq order_less_le_trans)
qed simp

lemma parse_frac_le: "parse_frac r = Some (fs, r') \<Longrightarrow> length r' \<le> length r"
  by (auto simp: parse_frac_def Let_def split: list.splits if_splits)

lemma parse_exp_le: "parse_exp r = Some (e, r') \<Longrightarrow> length r' \<le> length r"
  by (auto simp: parse_exp_def Let_def split: list.splits if_splits)

lemma parse_number_shorter:
  assumes "parse_number s = Some (v, r)"
  shows "length r < length s"
proof -
  define s1 where "s1 = (if (case s of c # _ \<Rightarrow> c = CHR ''-'' | [] \<Rightarrow> False) then tl s else s)"
  define ds where "ds = takeWhile is_digit s1"
  have ne: "ds \<noteq> []" and
    ex: "\<exists>fs r2 e. parse_frac (drop (length ds) s1) = Some (fs, r2) \<and> parse_exp r2 = Some (e, r)"
    using assms by (auto simp: parse_number_def Let_def s1_def ds_def split: if_splits option.splits)
  have "length ds \<le> length s1" by (simp add: ds_def length_takeWhile_le)
  then have "length (drop (length ds) s1) < length s1" using ne by (cases ds) auto
  moreover have "length s1 \<le> length s" by (simp add: s1_def)
  moreover have "length r \<le> length (drop (length ds) s1)"
    using ex parse_frac_le parse_exp_le by (meson order_trans)
  ultimately show ?thesis by linarith
qed

lemma pv_obj:
  "skip_ws s = CHR ''{'' # cs \<Longrightarrow> skip_ws cs = d # r0 \<Longrightarrow>
   parse_value (Suc n) s = (if d = CHR ''}'' then Some (JObj [], r0)
                            else map_option (\<lambda>(ps, r). (JObj ps, r)) (parse_members n cs))"
  by simp

lemma pv_arr:
  "skip_ws s = CHR ''['' # cs \<Longrightarrow> skip_ws cs = d # r0 \<Longrightarrow>
   parse_value (Suc n) s = (if d = CHR '']'' then Some (JArr [], r0)
                            else map_option (\<lambda>(vs, r). (JArr vs, r)) (parse_elements n cs))"
  by simp

lemma pv_scalar:
  "skip_ws s = c # cs \<Longrightarrow> c \<noteq> CHR ''{'' \<Longrightarrow> c \<noteq> CHR ''['' \<Longrightarrow>
   parse_value (Suc n) s = parse_value (Suc m) s"
  by simp

lemma pv_scalar_shorter:
  assumes "skip_ws s = c # cs" "c \<noteq> CHR ''{''" "c \<noteq> CHR ''[''" "parse_value (Suc n) s = Some (v, r)"
  shows "length r < length s"
proof -
  have "length cs < length s" using skip_ws_Cons_shorter [OF assms(1)] .
  then show ?thesis using assms
    by (auto split: if_splits option.splits dest!: parse_chars_shorter parse_number_shorter)
qed

lemma pm_unfold:
  "skip_ws s = dquote # cs \<Longrightarrow> parse_chars cs = Some (k, r1) \<Longrightarrow> skip_ws r1 = CHR '':'' # r2 \<Longrightarrow>
   parse_members (Suc n) s =
     (case parse_value n r2 of
        None \<Rightarrow> None
      | Some (v, r3) \<Rightarrow>
          (case skip_ws r3 of
             e # r4 \<Rightarrow>
               if e = CHR '','' then map_option (\<lambda>(ps, r). ((k, v) # ps, r)) (parse_members n r4)
               else if e = CHR ''}'' then Some ([(k, v)], r4)
               else None
           | [] \<Rightarrow> None))"
  by simp

lemma pe_unfold:
  "parse_elements (Suc n) s =
     (case parse_value n s of
        None \<Rightarrow> None
      | Some (v, r1) \<Rightarrow>
          (case skip_ws r1 of
             e # r2 \<Rightarrow>
               if e = CHR '','' then map_option (\<lambda>(vs, r). (v # vs, r)) (parse_elements n r2)
               else if e = CHR '']'' then Some ([v], r2)
               else None
           | [] \<Rightarrow> None))"
  by simp

lemma pm_head:
  assumes "parse_members (Suc n) s = Some (ps, r)"
  obtains cs k r1 r2 where "skip_ws s = dquote # cs" "parse_chars cs = Some (k, r1)" "skip_ws r1 = CHR '':'' # r2"
  using assms by (auto split: list.splits option.splits if_splits)

lemma parse_fuel:
  "parse_value n s = Some (v, r) \<Longrightarrow>
     length r < length s \<and> (\<forall>m. length s - length r \<le> m \<longrightarrow> parse_value m s = Some (v, r))"
  "parse_members n s = Some (ps, r) \<Longrightarrow>
     length r < length s \<and> (\<forall>m. length s - length r \<le> m \<longrightarrow> parse_members m s = Some (ps, r))"
  "parse_elements n s = Some (vs, r) \<Longrightarrow>
     length r < length s \<and> (\<forall>m. length s - length r \<le> m \<longrightarrow> parse_elements m s = Some (vs, r))"
proof (induction n s and n s and n s arbitrary: v r and ps r and vs r
    rule: parse_value_parse_members_parse_elements.induct)
  case (2 n s)
  obtain c cs where sk: "skip_ws s = c # cs" using "2.prems" by (auto split: list.splits)
  have cs: "length cs < length s" using skip_ws_Cons_shorter [OF sk] .
  consider (obj) "c = CHR ''{''" | (arr) "c = CHR ''[''" | (other) "c \<noteq> CHR ''{''" "c \<noteq> CHR ''[''" by blast
  then show ?case
  proof cases
    case obj
    obtain d r0 where sk2: "skip_ws cs = d # r0" using "2.prems" sk obj by (auto split: list.splits)
    have r0: "length r0 < length cs" using skip_ws_Cons_shorter [OF sk2] .
    show ?thesis
    proof (cases "d = CHR ''}''")
      case True
      then have r: "r = r0" "v = JObj []" using "2.prems" pv_obj [OF sk [unfolded obj] sk2] by simp_all
      have "\<forall>m. length s - length r \<le> m \<longrightarrow> parse_value m s = Some (v, r)"
      proof (intro allI impI)
        fix m assume "length s - length r \<le> m"
        then obtain m' where "m = Suc m'" using r(1) r0 cs by (cases m) auto
        then show "parse_value m s = Some (v, r)" using pv_obj [OF sk [unfolded obj] sk2] True r by simp
      qed
      then show ?thesis using r r0 cs by simp
    next
      case False
      then obtain ps where pm: "parse_members n cs = Some (ps, r)" and v: "v = JObj ps"
        using "2.prems" pv_obj [OF sk [unfolded obj] sk2] by auto
      have ih: "length r < length cs \<and> (\<forall>m. length cs - length r \<le> m \<longrightarrow> parse_members m cs = Some (ps, r))"
        using "2.IH"(1) [OF sk obj sk2 False] pm by blast
      have "\<forall>m. length s - length r \<le> m \<longrightarrow> parse_value m s = Some (v, r)"
      proof (intro allI impI)
        fix m assume m: "length s - length r \<le> m"
        then obtain m' where m': "m = Suc m'" using ih cs by (cases m) auto
        then have "parse_members m' cs = Some (ps, r)" using ih m cs by auto
        then show "parse_value m s = Some (v, r)" using pv_obj [OF sk [unfolded obj] sk2] False m' v by simp
      qed
      then show ?thesis using ih cs by simp
    qed
  next
    case arr
    obtain d r0 where sk2: "skip_ws cs = d # r0" using "2.prems" sk arr by (auto split: list.splits)
    have r0: "length r0 < length cs" using skip_ws_Cons_shorter [OF sk2] .
    show ?thesis
    proof (cases "d = CHR '']''")
      case True
      then have r: "r = r0" "v = JArr []" using "2.prems" pv_arr [OF sk [unfolded arr] sk2] by simp_all
      have "\<forall>m. length s - length r \<le> m \<longrightarrow> parse_value m s = Some (v, r)"
      proof (intro allI impI)
        fix m assume "length s - length r \<le> m"
        then obtain m' where "m = Suc m'" using r(1) r0 cs by (cases m) auto
        then show "parse_value m s = Some (v, r)" using pv_arr [OF sk [unfolded arr] sk2] True r by simp
      qed
      then show ?thesis using r r0 cs by simp
    next
      case False
      then obtain vs where pe: "parse_elements n cs = Some (vs, r)" and v: "v = JArr vs"
        using "2.prems" pv_arr [OF sk [unfolded arr] sk2] by auto
      have ih: "length r < length cs \<and> (\<forall>m. length cs - length r \<le> m \<longrightarrow> parse_elements m cs = Some (vs, r))"
      proof -
        have "c \<noteq> CHR ''{''" using arr by simp
        then show ?thesis using "2.IH"(2) [OF sk _ arr sk2 False] pe by blast
      qed
      have "\<forall>m. length s - length r \<le> m \<longrightarrow> parse_value m s = Some (v, r)"
      proof (intro allI impI)
        fix m assume m: "length s - length r \<le> m"
        then obtain m' where m': "m = Suc m'" using ih cs by (cases m) auto
        then have "parse_elements m' cs = Some (vs, r)" using ih m cs by auto
        then show "parse_value m s = Some (v, r)" using pv_arr [OF sk [unfolded arr] sk2] False m' v by simp
      qed
      then show ?thesis using ih cs by simp
    qed
  next
    case other
    have r: "length r < length s" using pv_scalar_shorter [OF sk other "2.prems"] .
    have "\<forall>m. length s - length r \<le> m \<longrightarrow> parse_value m s = Some (v, r)"
    proof (intro allI impI)
      fix m assume "length s - length r \<le> m"
      then obtain m' where "m = Suc m'" using r by (cases m) auto
      then show "parse_value m s = Some (v, r)" using pv_scalar [OF sk other, of n m'] "2.prems" by simp
    qed
    with r show ?thesis by simp
  qed
next
  case (4 n s)
  obtain cs k r1 r2 where sk: "skip_ws s = dquote # cs" and pc: "parse_chars cs = Some (k, r1)"
    and sk1: "skip_ws r1 = CHR '':'' # r2"
    using pm_head [OF "4.prems"] .
  have l1: "length r2 < length s"
    using skip_ws_Cons_shorter [OF sk] parse_chars_shorter [OF pc] skip_ws_Cons_shorter [OF sk1] by simp
  note u = pm_unfold [OF sk pc sk1]
  obtain v r3 where pv: "parse_value n r2 = Some (v, r3)"
    using "4.prems" u by (auto split: option.splits)
  have ihv: "length r3 < length r2 \<and> (\<forall>m. length r2 - length r3 \<le> m \<longrightarrow> parse_value m r2 = Some (v, r3))"
    using "4.IH"(1) [OF sk _ pc refl sk1] pv by auto
  obtain e r4 where sk3: "skip_ws r3 = e # r4"
    using "4.prems" u pv by (auto split: list.splits)
  have l4: "length r4 < length r3" using skip_ws_Cons_shorter [OF sk3] .
  show ?case
  proof (cases "e = CHR '',''")
    case True
    obtain ps' where pm: "parse_members n r4 = Some (ps', r)" and ps: "ps = (k, v) # ps'"
      using "4.prems" u pv sk3 True by auto
    have ih: "length r < length r4 \<and> (\<forall>m. length r4 - length r \<le> m \<longrightarrow> parse_members m r4 = Some (ps', r))"
      using "4.IH"(2) [OF sk _ pc refl sk1 _ pv refl sk3 True] pm by auto
    have "\<forall>m. length s - length r \<le> m \<longrightarrow> parse_members m s = Some (ps, r)"
    proof (intro allI impI)
      fix m assume m: "length s - length r \<le> m"
      then obtain m' where m': "m = Suc m'" using ih l1 ihv l4 by (cases m) auto
      have "parse_value m' r2 = Some (v, r3)" using ihv ih m m' l1 l4 by auto
      moreover have "parse_members m' r4 = Some (ps', r)" using ih m m' l1 l4 ihv by auto
      ultimately show "parse_members m s = Some (ps, r)"
        using pm_unfold [OF sk pc sk1, of m'] m' sk3 True ps by simp
    qed
    then show ?thesis using ih l1 l4 ihv by simp
  next
    case False
    then have e: "e = CHR ''}''" and r: "r = r4" and ps: "ps = [(k, v)]"
      using "4.prems" u pv sk3 by (auto split: if_splits)
    have "\<forall>m. length s - length r \<le> m \<longrightarrow> parse_members m s = Some (ps, r)"
    proof (intro allI impI)
      fix m assume m: "length s - length r \<le> m"
      then obtain m' where m': "m = Suc m'" using l1 ihv l4 r by (cases m) auto
      have "parse_value m' r2 = Some (v, r3)" using ihv m m' l1 l4 r by auto
      then show "parse_members m s = Some (ps, r)"
        using pm_unfold [OF sk pc sk1, of m'] m' sk3 e r ps by simp
    qed
    then show ?thesis using l1 l4 ihv r by simp
  qed
next
  case (6 n s)
  obtain v r1 where pv: "parse_value n s = Some (v, r1)"
    using "6.prems" pe_unfold [of n s] by (auto split: option.splits)
  have ihv: "length r1 < length s \<and> (\<forall>m. length s - length r1 \<le> m \<longrightarrow> parse_value m s = Some (v, r1))"
    using "6.IH"(1) pv by auto
  obtain e r2 where sk: "skip_ws r1 = e # r2"
    using "6.prems" pe_unfold [of n s] pv by (auto split: list.splits)
  have l2: "length r2 < length r1" using skip_ws_Cons_shorter [OF sk] .
  show ?case
  proof (cases "e = CHR '',''")
    case True
    obtain vs' where pe: "parse_elements n r2 = Some (vs', r)" and vs: "vs = v # vs'"
      using "6.prems" pe_unfold [of n s] pv sk True by auto
    have ih: "length r < length r2 \<and> (\<forall>m. length r2 - length r \<le> m \<longrightarrow> parse_elements m r2 = Some (vs', r))"
      using "6.IH"(2) [OF pv refl sk True] pe by auto
    have "\<forall>m. length s - length r \<le> m \<longrightarrow> parse_elements m s = Some (vs, r)"
    proof (intro allI impI)
      fix m assume m: "length s - length r \<le> m"
      then obtain m' where m': "m = Suc m'" using ih ihv l2 by (cases m) auto
      have "parse_value m' s = Some (v, r1)" using ihv ih m m' l2 by auto
      moreover have "parse_elements m' r2 = Some (vs', r)" using ih ihv m m' l2 by auto
      ultimately show "parse_elements m s = Some (vs, r)"
        using pe_unfold [of m' s] m' sk True vs by simp
    qed
    then show ?thesis using ih ihv l2 by simp
  next
    case False
    then have e: "e = CHR '']''" and r: "r = r2" and vs: "vs = [v]"
      using "6.prems" pe_unfold [of n s] pv sk by (auto split: if_splits)
    have "\<forall>m. length s - length r \<le> m \<longrightarrow> parse_elements m s = Some (vs, r)"
    proof (intro allI impI)
      fix m assume m: "length s - length r \<le> m"
      then obtain m' where m': "m = Suc m'" using ihv l2 r by (cases m) auto
      have "parse_value m' s = Some (v, r1)" using ihv m m' l2 r by auto
      then show "parse_elements m s = Some (vs, r)"
        using pe_unfold [of m' s] m' sk e r vs by simp
    qed
    then show ?thesis using ihv l2 r by simp
  qed
qed simp_all

text \<open>
  The fuel \<open>json_parse\<close> gives is never what makes it fail: a text is accepted
  exactly when some amount of fuel parses it completely.
\<close>

lemma json_parse_fuel:
  "json_parse s = Some v \<longleftrightarrow> (\<exists>n r. parse_value n s = Some (v, r) \<and> skip_ws r = [])"
proof
  assume j: "json_parse s = Some v"
  then obtain r where "parse_value (Suc (length s)) s = Some (v, r)" "skip_ws r = []"
    unfolding json_parse_def by (auto simp del: parse_value.simps split: option.splits if_splits)
  then show "\<exists>n r. parse_value n s = Some (v, r) \<and> skip_ws r = []" by blast
next
  assume "\<exists>n r. parse_value n s = Some (v, r) \<and> skip_ws r = []"
  then obtain n r where p: "parse_value n s = Some (v, r)" and w: "skip_ws r = []" by blast
  have "\<forall>m. length s - length r \<le> m \<longrightarrow> parse_value m s = Some (v, r)" using parse_fuel(1) [OF p] by blast
  then have "parse_value (Suc (length s)) s = Some (v, r)" by (meson diff_le_self le_SucI)
  with w show "json_parse s = Some v" by (simp add: json_parse_def)
qed

subsection \<open>Numbers and their grammar\<close>

lemma digits_takeWhile:
  "is_digits (takeWhile is_digit t) \<longleftrightarrow> takeWhile is_digit t \<noteq> []"
  by (auto simp: is_digits_def list_all_iff dest: set_takeWhileD)

lemma parse_frac_Some:
  "parse_frac r = Some (fs, r') \<Longrightarrow> \<exists>fx. r = fx @ r' \<and> frac_lit fx fs"
proof (cases r)
  case (Cons c t)
  assume p: "parse_frac r = Some (fs, r')"
  show ?thesis
  proof (cases "c = CHR ''.''")
    case True
    let ?fs = "takeWhile is_digit t"
    have fs: "fs = ?fs" "r' = drop (length ?fs) t" "?fs \<noteq> []"
      using p Cons True by (auto simp: parse_frac_def Let_def split: if_splits)
    have "is_digits fs" using fs by (simp add: digits_takeWhile)
    then have "frac_lit (CHR ''.'' # fs) fs" by (rule frac_digits)
    moreover have "r = (CHR ''.'' # fs) @ r'"
      using fs Cons True by (simp add: dropWhile_eq_drop [symmetric])
    ultimately show ?thesis by blast
  next
    case False
    then show ?thesis using p Cons by (auto simp: parse_frac_def intro: frac_none)
  qed
qed (auto simp: parse_frac_def intro: frac_none)

lemma parse_exp_Some:
  "parse_exp r = Some (e, r') \<Longrightarrow> \<exists>ex. r = ex @ r' \<and> exp_lit ex e"
proof (cases r)
  case (Cons c t)
  assume p: "parse_exp r = Some (e, r')"
  show ?thesis
  proof (cases "c = CHR ''e'' \<or> c = CHR ''E''")
    case ce: True
    then have c: "c \<in> {CHR ''e'', CHR ''E''}" by auto
    show ?thesis
    proof (cases t)
      case Nil
      then show ?thesis using p Cons ce by (simp add: parse_exp_def)
    next
      case (Cons d u)
      show ?thesis
      proof (cases "d = CHR ''-''")
        case True
        let ?ds = "takeWhile is_digit u"
        have "parse_exp r = (if ?ds = [] then None else Some (- int (nat_of_digits ?ds), drop (length ?ds) u))"
          using \<open>r = c # t\<close> ce Cons True by (simp add: parse_exp_def Let_def)
        then have ds: "?ds \<noteq> []" "e = - int (nat_of_digits ?ds)" "r' = drop (length ?ds) u"
          using p by (simp_all split: if_split_asm)
        have "exp_lit (c # CHR ''-'' # ?ds) (- int (nat_of_digits ?ds))"
          using c ds(1) by (intro exp_neg) (simp_all add: digits_takeWhile)
        moreover have "r = (c # CHR ''-'' # ?ds) @ r'"
          using ds \<open>r = c # t\<close> Cons True by (simp add: dropWhile_eq_drop [symmetric])
        ultimately show ?thesis using ds(2) by blast
      next
        case False
        define sg where "sg = (if d = CHR ''+'' then ''+'' else [])"
        define u' where "u' = (if d = CHR ''+'' then u else d # u)"
        have tu: "t = sg @ u'" using Cons by (simp add: sg_def u'_def)
        let ?ds = "takeWhile is_digit u'"
        have "parse_exp r = (if ?ds = [] then None else Some (int (nat_of_digits ?ds), drop (length ?ds) u'))"
          using \<open>r = c # t\<close> ce Cons False by (simp add: parse_exp_def Let_def u'_def)
        then have ds: "?ds \<noteq> []" "e = int (nat_of_digits ?ds)" "r' = drop (length ?ds) u'"
          using p by (simp_all split: if_split_asm)
        have "exp_lit (c # sg @ ?ds) (int (nat_of_digits ?ds))"
          using c ds(1) by (intro exp_pos) (simp_all add: digits_takeWhile sg_def)
        moreover have "r = (c # sg @ ?ds) @ r'"
          using ds \<open>r = c # t\<close> tu by (simp add: dropWhile_eq_drop [symmetric])
        ultimately show ?thesis using ds(2) by blast
      qed
    qed
  next
    case False
    then show ?thesis using p Cons by (auto simp: parse_exp_def intro: exp_none)
  qed
qed (auto simp: parse_exp_def intro: exp_none)

lemma exp_lit_start:
  assumes "exp_lit ex e" "\<not> is_number_tail r"
  shows "\<not> digit_start (ex @ r) \<and> \<not> dot_start (ex @ r)"
  using assms(1)
proof cases
  case exp_none
  then show ?thesis using assms(2) by (auto simp: is_number_tail_def digit_start_def dot_start_def split: list.splits)
qed (auto simp: digit_start_def dot_start_def is_digit_def)

lemma frac_lit_start:
  "frac_lit fx fs \<Longrightarrow> \<not> digit_start w \<Longrightarrow> \<not> digit_start (fx @ w)"
  by (auto elim: frac_lit.cases simp: digit_start_def is_digit_def)

lemma frac_lit_parse:
  assumes "frac_lit fx fs" "\<not> digit_start w" "\<not> dot_start w"
  shows "parse_frac (fx @ w) = Some (fs, w)"
  using assms(1)
proof cases
  case frac_none
  then show ?thesis using assms(3) by (auto simp: parse_frac_def dot_start_def split: list.splits)
next
  case frac_digits
  then have "takeWhile is_digit (fs @ w) = fs"
    using takeWhile_digits_append assms(2) by (simp add: is_digits_def)
  then show ?thesis using frac_digits by (simp add: parse_frac_def is_digits_def)
qed

lemma exp_lit_parse:
  assumes "exp_lit ex e" "\<not> is_number_tail r"
  shows "parse_exp (ex @ r) = Some (e, r)"
  using assms(1)
proof cases
  case exp_none
  then show ?thesis using parse_frac_exp_none(2) [OF assms(2)] by simp
next
  case (exp_pos c sg ds)
  have tw: "takeWhile is_digit (ds @ r) = ds"
    using takeWhile_digits_append not_tail_digit_start [OF assms(2)] exp_pos(5) by (simp add: is_digits_def)
  obtain d u where du: "ds = d # u" "is_digit d" using exp_pos(5) by (cases ds) (auto simp: is_digits_def)
  then have "d \<noteq> CHR ''-'' \<and> d \<noteq> CHR ''+''" by (auto simp: is_digit_def)
  then show ?thesis using exp_pos tw du by (auto simp: parse_exp_def Let_def)
next
  case (exp_neg c ds)
  have tw: "takeWhile is_digit (ds @ r) = ds"
    using takeWhile_digits_append not_tail_digit_start [OF assms(2)] exp_neg(4) by (simp add: is_digits_def)
  then show ?thesis using exp_neg by (auto simp: parse_exp_def Let_def is_digits_def)
qed

lemma parse_number_grammar:
  "parse_number s = Some (v, r) \<longleftrightarrow> (\<exists>t. s = t @ r \<and> number_lit t v \<and> \<not> is_number_tail r)"
proof
  assume p: "parse_number s = Some (v, r)"
  define neg where "neg = (case s of c # _ \<Rightarrow> c = CHR ''-'' | [] \<Rightarrow> False)"
  define s1 where "s1 = (if neg then tl s else s)"
  define ds where "ds = takeWhile is_digit s1"
  define r1 where "r1 = drop (length ds) s1"
  have eq: "parse_number s =
     (if ds = [] \<or> (hd ds = CHR ''0'' \<and> length ds > 1) then None
      else (case parse_frac r1 of
              None \<Rightarrow> None
            | Some (fs, r2) \<Rightarrow>
                (case parse_exp r2 of
                   None \<Rightarrow> None
                 | Some (e, r3) \<Rightarrow> if is_number_tail r3 then None else Some (number_value neg ds fs e, r3))))"
    unfolding parse_number_def Let_def neg_def s1_def ds_def r1_def by (rule refl)
  have ok: "ds \<noteq> [] \<and> \<not> (hd ds = CHR ''0'' \<and> length ds > 1)"
    and "\<exists>fs r2 e. parse_frac r1 = Some (fs, r2) \<and> parse_exp r2 = Some (e, r) \<and> \<not> is_number_tail r \<and>
                  v = number_value neg ds fs e"
    using p unfolding eq by (auto split: if_splits option.splits)
  then obtain fs r2 e where pf: "parse_frac r1 = Some (fs, r2)" and pe: "parse_exp r2 = Some (e, r)"
    and nt: "\<not> is_number_tail r" and v: "v = number_value neg ds fs e" by blast
  obtain fx where fx: "r1 = fx @ r2" "frac_lit fx fs" using parse_frac_Some [OF pf] by blast
  obtain ex where ex: "r2 = ex @ r" "exp_lit ex e" using parse_exp_Some [OF pe] by blast
  let ?sg = "if neg then ''-'' else []"
  have s: "s = ?sg @ s1" by (cases s) (auto simp: neg_def s1_def)
  have s1: "s1 = ds @ r1" by (simp add: ds_def r1_def dropWhile_eq_drop [symmetric])
  have "is_digits ds" using ok by (simp add: ds_def digits_takeWhile)
  moreover have "hd ds = CHR ''0'' \<longrightarrow> length ds = 1" using ok by (cases ds) auto
  ultimately have "is_int_digits ds" by (simp add: is_int_digits_def)
  then have "number_lit (?sg @ ds @ fx @ ex) (number_value (?sg = ''-'') ds fs e)"
    using fx(2) ex(2) by (intro number_lit.intros) simp_all
  moreover have "(?sg = ''-'') = neg" by simp
  ultimately show "\<exists>t. s = t @ r \<and> number_lit t v \<and> \<not> is_number_tail r"
    using s s1 fx(1) ex(1) nt v by (intro exI [of _ "?sg @ ds @ fx @ ex"]) simp
next
  assume "\<exists>t. s = t @ r \<and> number_lit t v \<and> \<not> is_number_tail r"
  then obtain t where s: "s = t @ r" and nl: "number_lit t v" and nt: "\<not> is_number_tail r" by blast
  from nl obtain sg ds fx fs ex e where t: "t = sg @ ds @ fx @ ex" and sg: "sg \<in> {[], ''-''}"
    and ids: "is_int_digits ds" and fl: "frac_lit fx fs" and el: "exp_lit ex e"
    and v: "v = number_value (sg = ''-'') ds fs e"
    by cases auto
  have st: "\<not> digit_start (ex @ r)" "\<not> dot_start (ex @ r)" using exp_lit_start [OF el nt] by simp_all
  have pf: "parse_frac (fx @ ex @ r) = Some (fs, ex @ r)" by (rule frac_lit_parse [OF fl st])
  have nw: "\<not> digit_start (fx @ ex @ r)" by (rule frac_lit_start [OF fl st(1)])
  have pe: "parse_exp (ex @ r) = Some (e, r)" by (rule exp_lit_parse [OF el nt])
  obtain c u where ds: "ds = c # u" "list_all is_digit ds" "\<not> (c = CHR ''0'' \<and> u \<noteq> [])"
    using ids by (cases ds) (auto simp: is_int_digits_def is_digits_def)
  show "parse_number s = Some (v, r)"
  proof (cases "sg = []")
    case True
    then show ?thesis using parse_number_parts(1) [OF ds nw pf pe nt] s t v by simp
  next
    case False
    then have "sg = ''-''" using sg by simp
    then show ?thesis using parse_number_parts(2) [OF ds nw pf pe nt] s t v by simp
  qed
qed

subsection \<open>Parsing texts with a number literal\<close>

lemma number_lit_Cons: "number_lit t v \<Longrightarrow> \<exists>c t'. t = c # t' \<and> (c = CHR ''-'' \<or> is_digit c)"
  by (auto elim!: number_lit.cases simp: is_int_digits_def is_digits_def neq_Nil_conv)

lemma parse_value_literal:
  assumes "number_lit t v" and "\<not> is_number_tail r"
  shows "parse_value (Suc n) (t @ r) = Some (v, r)"
proof -
  obtain c t' where ct: "t = c # t'" "c = CHR ''-'' \<or> is_digit c" using number_lit_Cons [OF assms(1)] by blast
  have "parse_number (t @ r) = Some (v, r)" using parse_number_grammar assms by blast
  then show ?thesis using parse_value_number [OF ct] by simp
qed

lemma parse_member_text:
  assumes "parse_value n (p @ r) = Some (v, r)"
  shows "parse_members (Suc n) (json_quote k @ CHR '':'' # p @ r) =
    (case skip_ws r of
       e # r4 \<Rightarrow>
         if e = CHR '','' then map_option (\<lambda>(ps, r). ((k, v) # ps, r)) (parse_members n r4)
         else if e = CHR ''}'' then Some ([(k, v)], r4)
         else None
     | [] \<Rightarrow> None)"
proof -
  have "parse_chars (concat (map json_escape_char k) @ dquote # CHR '':'' # p @ r)
        = Some (k, CHR '':'' # p @ r)"
    by (rule parse_chars_quote)
  with assms show ?thesis
    by (simp add: json_quote_def skip_ws_Cons is_json_ws_def dquote_def)
qed

lemma pv_object_text:
  assumes "parse_members n (json_quote k @ rest) = Some (ps, r)"
  shows "parse_value (Suc n) (CHR ''{'' # json_quote k @ rest) = Some (JObj ps, r)"
proof -
  have "skip_ws (json_quote k @ rest) = dquote # concat (map json_escape_char k) @ dquote # rest"
    by (simp add: json_quote_def skip_ws_Cons is_json_ws_def dquote_def)
  then show ?thesis using assms by (simp add: skip_ws_Cons is_json_ws_def dquote_def)
qed

end
