(* ===== verification/Store.thy ===== *)
theory Store
  imports JsObject JsNumber Json
begin

text \<open>
  The state of the \<open>UrlShortener\<close> component (\<open>src/src/UrlShortener.jsx\<close>) and
  its persistence. The three \<open>useState\<close> hooks (lines 20--22) are the fields
  \<open>inputUrl\<close>, \<open>urlMap\<close> and \<open>error\<close> of the record \<open>app\<close>; the rest of
  the record is the environment the handlers act on: \<open>localStorage\<close> (a map from
  storage keys to strings), the URLs passed to \<open>window.open\<close>, the messages
  passed to \<open>alert\<close>, and the stream of future \<open>Math.random\<close> results.
  An entry \<open>{originalUrl, clicks}\<close> is the record \<open>entry\<close>. The effect on
  lines 29--31 writes \<open>JSON.stringify(urlMap)\<close> after every commit in which
  \<open>urlMap\<close> changed; every \<open>setUrlMap\<close> of the component passes a fresh object,
  so every call re-renders and runs the effect (\<open>set_url_map\<close>).
\<close>

record entry =
  originalUrl :: js_string
  clicks :: nat

type_synonym url_map = "entry jsobj"

record app =
  inputUrl :: js_string
  urlMap :: url_map
  error :: js_string
  storage :: "js_string \<rightharpoonup> js_string"
  opened :: "js_string list"
  alerts :: "js_string list"
  rng :: "real stream"

definition LOCAL_STORAGE_KEY :: js_string where
  "LOCAL_STORAGE_KEY = ''urlShortenerData''"

text \<open>
  The state right after the \<open>useState\<close> initialisers (empty input, \<open>{}\<close>,
  no error), in a browser whose storage is \<open>st\<close> and whose future
  \<open>Math.random\<close> results are \<open>rs\<close>.
\<close>

definition init_state :: "(js_string \<rightharpoonup> js_string) \<Rightarrow> real stream \<Rightarrow> app" where
  "init_state st rs =
     \<lparr>inputUrl = [], urlMap = [], error = [], storage = st, opened = [], alerts = [], rng = rs\<rparr>"

subsection \<open>Serialisation\<close>

definition entry_to_json :: "entry \<Rightarrow> json" where
  "entry_to_json e = JObj [(''originalUrl'', JStr (originalUrl e)), (''clicks'', JNum (int (clicks e)))]"

text \<open>\<open>JSON.stringify\<close> visits the properties in enumeration order.\<close>

definition store_to_json :: "url_map \<Rightarrow> json" where
  "store_to_json m = JObj (map (\<lambda>e. (fst e, entry_to_json (snd e))) (obj_entries m))"

definition stringify_store :: "url_map \<Rightarrow> js_string" where
  "stringify_store m = json_print (store_to_json m)"

text \<open>The effect of lines 29--31.\<close>

definition persist :: "app \<Rightarrow> app" where
  "persist s = s\<lparr>storage := (storage s)(LOCAL_STORAGE_KEY \<mapsto> stringify_store (urlMap s))\<rparr>"

text \<open>\<open>setUrlMap(m)\<close>, the re-render it causes and the save effect after it.\<close>

definition set_url_map :: "url_map \<Rightarrow> app \<Rightarrow> app" where
  "set_url_map m s = persist (s\<lparr>urlMap := m\<rparr>)"

subsection \<open>Deserialisation\<close>

text \<open>
  \<open>JSON.parse\<close> creates the properties of an object in text order; a repeated key
  keeps its first position and takes the last value.
\<close>

definition json_object :: "(js_string \<times> json) list \<Rightarrow> json jsobj" where
  "json_object ps = foldl (\<lambda>acc p. AList.update (fst p) (snd p) acc) [] ps"

text \<open>
  The click count a parsed number denotes. \<open>JSON.parse\<close> reads a number
  literal as the double nearest to its exact value (\<open>dbl_round\<close> for an integer,
  \<open>dbl_nearest\<close> for a fraction \<open>m / 10^k\<close>), which overflows to
  \<open>Infinity\<close> from \<open>2^1024\<close> on and underflows to zero below the least
  subnormal. The component keeps that double; it is a click count of the model when
  it is a finite non-negative integer (a negative zero, from a literal such as
  \<open>-1e-400\<close>, prints, adds and is saved as 0). A negative, fractional or infinite
  count is \<open>None\<close>.
\<close>

definition json_clicks :: "json \<Rightarrow> nat option" where
  "json_clicks v =
     (case v of
        JNum n \<Rightarrow> if 0 \<le> n \<and> dbl_round (nat n) < 2 ^ 1024 then Some (dbl_round (nat n)) else None
      | JFrac m k \<Rightarrow>
          (case dbl_nearest (nat \<bar>m\<bar>) (10 ^ k) of
             (q, s) \<Rightarrow>
               if q = 0 then Some 0
               else if m < 0 then None
               else if 0 \<le> s then (if q * 2 ^ nat s < 2 ^ 1024 then Some (q * 2 ^ nat s) else None)
               else if 2 ^ nat (- s) dvd q then Some (q div 2 ^ nat (- s)) else None)
      | _ \<Rightarrow> None)"

text \<open>
  The component stores whatever \<open>JSON.parse\<close> returns. The model accepts exactly
  the shape the component writes: an object of entries, each an object with the two
  properties \<open>originalUrl\<close> (a string) and \<open>clicks\<close> (a number that
  \<open>json_clicks\<close> reads as a count), in this order; other shapes are \<open>None\<close>
  here. An entry with more properties, or with them in the other order, would be
  kept by the component as it is and saved back in that form, which the record
  \<open>entry\<close> cannot hold; so would a negative, fractional or infinite count.
\<close>

definition json_to_entry :: "json \<Rightarrow> entry option" where
  "json_to_entry j =
     (case j of
        JObj ps \<Rightarrow>
          (case json_object ps of
             [(k1, JStr u), (k2, v)] \<Rightarrow>
               if k1 = ''originalUrl'' \<and> k2 = ''clicks''
               then (case json_clicks v of Some c \<Rightarrow> Some \<lparr>originalUrl = u, clicks = c\<rparr> | None \<Rightarrow> None)
               else None
           | _ \<Rightarrow> None)
      | _ \<Rightarrow> None)"

fun entries_of_json :: "json jsobj \<Rightarrow> url_map option" where
  "entries_of_json [] = Some []"
| "entries_of_json (p # ps) =
     (case (json_to_entry (snd p), entries_of_json ps) of
        (Some e, Some es) \<Rightarrow> Some ((fst p, e) # es)
      | _ \<Rightarrow> None)"

definition json_to_store :: "json \<Rightarrow> url_map option" where
  "json_to_store j = (case j of JObj ps \<Rightarrow> entries_of_json (json_object ps) | _ \<Rightarrow> None)"

text \<open>
  Reading the saved text back: \<open>JSON.parse\<close> throws a \<open>SyntaxError\<close> on text
  that is not JSON; text that parses to another shape than a store of entries is
  outside the model's state space (\<open>UnsupportedShape\<close>: the component would
  store it and fail later, when it renders \<open>Object.entries(urlMap)\<close> or reads
  \<open>entry.clicks\<close>).
\<close>

datatype load_error = SyntaxError | UnsupportedShape

definition load_store :: "js_string \<Rightarrow> load_error + url_map" where
  "load_store data =
     (case json_parse data of
        None \<Rightarrow> Inl SyntaxError
      | Some j \<Rightarrow> (case json_to_store j of None \<Rightarrow> Inl UnsupportedShape | Some m \<Rightarrow> Inr m))"

text \<open>
  The mount commit (lines 24--31). Both effects run after the first render, in
  order. The load effect: \<open>if (data)\<close> skips a missing item (\<open>null\<close>) and
  the empty string; the exception of \<open>JSON.parse\<close> is not caught, it escapes
  the effect and React unmounts the component, which is \<open>Inl\<close> here. Otherwise
  \<open>setUrlMap\<close> schedules the loaded object. The save effect then writes the
  initial \<open>{}\<close>; the re-render with the loaded object runs it again
  (\<open>set_url_map\<close>).
\<close>

definition mount :: "app \<Rightarrow> load_error + app" where
  "mount s =
     (case storage s LOCAL_STORAGE_KEY of
        None \<Rightarrow> Inr (persist s)
      | Some data \<Rightarrow>
          if data = [] then Inr (persist s)
          else (case load_store data of
                  Inl err \<Rightarrow> Inl err
                | Inr m \<Rightarrow> Inr (set_url_map m (persist s))))"


text \<open>Clicks at most \<open>2^53\<close>: printed exactly by \<open>JSON.stringify\<close> and read back exactly.\<close>

definition clicks_bounded :: "url_map \<Rightarrow> bool" where
  "clicks_bounded m \<longleftrightarrow> list_all (\<lambda>e. clicks (snd e) \<le> 2 ^ 53) m"

subsection \<open>Facts on setUrlMap\<close>

lemma storage_set_url_map [simp]:
  "storage (set_url_map m s) = (storage s)(LOCAL_STORAGE_KEY \<mapsto> stringify_store m)"
  by (simp add: set_url_map_def persist_def)

lemma urlMap_set_url_map [simp]: "urlMap (set_url_map m s) = m"
  by (simp add: set_url_map_def persist_def)

lemma set_url_map_fields [simp]:
  "inputUrl (set_url_map m s) = inputUrl s" "error (set_url_map m s) = error s"
  "opened (set_url_map m s) = opened s" "alerts (set_url_map m s) = alerts s"
  "rng (set_url_map m s) = rng s"
  by (simp_all add: set_url_map_def persist_def)

subsection \<open>Saving and loading\<close>

lemma json_object_distinct: "distinct (map fst ps) \<Longrightarrow> json_object ps = ps"
  using foldl_update_distinct [of "[]" ps] by (simp add: json_object_def)

lemma json_ok_store_to_json: "json_ok (store_to_json m)"
  by (simp add: store_to_json_def entry_to_json_def list_all_iff)

lemma json_to_entry_entry: "clicks e \<le> 2 ^ 53 \<Longrightarrow> json_to_entry (entry_to_json e) = Some e"
  by (simp add: json_to_entry_def entry_to_json_def json_object_def json_clicks_def dbl_round_exact)

lemma entries_of_json_map:
  "list_all (\<lambda>e. clicks (snd e) \<le> 2 ^ 53) m \<Longrightarrow>
   entries_of_json (map (\<lambda>e. (fst e, entry_to_json (snd e))) m) = Some m"
  by (induction m) (auto simp: json_to_entry_entry)

lemma clicks_bounded_entries [simp]: "clicks_bounded (obj_entries m) = clicks_bounded m"
  by (simp add: clicks_bounded_def list_all_iff)

lemma stringify_store_entries [simp]: "stringify_store (obj_entries m) = stringify_store m"
  by (simp add: stringify_store_def store_to_json_def)

lemma stringify_store_nonempty [simp]: "stringify_store m \<noteq> []"
  by (simp add: stringify_store_def store_to_json_def)

text \<open>Loading the saved text gives the store with its entries in enumeration order.\<close>

lemma load_stringify:
  assumes "obj_wf m" and "clicks_bounded m"
  shows "load_store (stringify_store m) = Inr (obj_entries m)"
proof -
  have d: "distinct (map fst (map (\<lambda>e. (fst e, entry_to_json (snd e))) (obj_entries m)))"
    using assms(1) obj_wf_entries [of m] by (simp add: obj_wf_def comp_def)
  have "list_all (\<lambda>e. clicks (snd e) \<le> 2 ^ 53) (obj_entries m)"
    using assms(2) clicks_bounded_entries [of m] by (simp add: clicks_bounded_def)
  moreover have "json_parse (stringify_store m) = Some (store_to_json m)"
    unfolding stringify_store_def by (rule json_parse_print [OF json_ok_store_to_json])
  ultimately show ?thesis using d
    by (simp add: load_store_def store_to_json_def json_to_store_def json_object_distinct
        entries_of_json_map del: json_print.simps)
qed

lemma mount_saved:
  assumes "obj_wf m" and "clicks_bounded m"
    and "storage s LOCAL_STORAGE_KEY = Some (stringify_store m)"
  shows "mount s = Inr (set_url_map (obj_entries m) (persist s))"
  using assms load_stringify [OF assms(1,2)] by (simp add: mount_def)


text \<open>
  C12. The text the save effect writes loads back as the same store: the same
  entries under the same keys, enumerated in the same order, saved again as the same
  text (keys unique, clicks at most \<open>2^53\<close>).
\<close>

lemma load_store_stringify:
  assumes "obj_wf m" and "clicks_bounded m"
  shows "\<exists>m'. load_store (stringify_store m) = Inr m' \<and> map_of m' = map_of m \<and>
              obj_keys m' = obj_keys m \<and> stringify_store m' = stringify_store m"
  using load_stringify [OF assms] assms(1)
  by (simp add: map_of_obj_entries obj_keys_obj_entries)

text \<open>
  C13. After a reload, the mount effect restores exactly the saved store: the same
  entries under the same keys, in the same enumeration order, and the storage is
  left as it was.
\<close>

lemma mount_reload:
  assumes wf: "obj_wf (urlMap s)" and b: "clicks_bounded (urlMap s)"
    and saved: "storage s LOCAL_STORAGE_KEY = Some (stringify_store (urlMap s))"
  shows "\<exists>t. mount (init_state (storage s) rs) = Inr t \<and>
             map_of (urlMap t) = map_of (urlMap s) \<and> obj_keys (urlMap t) = obj_keys (urlMap s) \<and>
             storage t = storage s \<and> inputUrl t = [] \<and> error t = []"
proof -
  have "mount (init_state (storage s) rs) =
        Inr (set_url_map (obj_entries (urlMap s)) (persist (init_state (storage s) rs)))"
    using mount_saved [OF wf b] saved by (simp add: init_state_def)
  then show ?thesis
    using wf saved by (auto simp: map_of_obj_entries obj_keys_obj_entries init_state_def persist_def fun_upd_idem)
qed

text \<open>
  C14. Saved text that is not JSON makes the mount effect throw: \<open>JSON.parse\<close>
  raises a \<open>SyntaxError\<close> that the component does not catch.
\<close>

lemma mount_syntax_error:
  assumes "storage s LOCAL_STORAGE_KEY = Some data" and "data \<noteq> []" and "json_parse data = None"
  shows "mount s = Inl SyntaxError"
  using assms by (simp add: mount_def load_store_def)

text \<open>
  C29. The mount effect throws a \<open>SyntaxError\<close> exactly when the saved text is
  not empty and no amount of fuel parses it completely: the bound the model puts on
  the recursion of \<open>JSON.parse\<close> (one unit per character) never causes an error
  by itself.
\<close>

theorem mount_syntax_error_iff:
  assumes "storage s LOCAL_STORAGE_KEY = Some data"
  shows "mount s = Inl SyntaxError \<longleftrightarrow>
           data \<noteq> [] \<and> \<not> (\<exists>n v r. parse_value n data = Some (v, r) \<and> skip_ws r = [])"
proof -
  have "json_parse data = None \<longleftrightarrow> \<not> (\<exists>n v r. parse_value n data = Some (v, r) \<and> skip_ws r = [])"
  proof -
    have "json_parse data \<noteq> None \<longleftrightarrow> (\<exists>v. json_parse data = Some v)" by auto
    then show ?thesis using json_parse_fuel [of data] by blast
  qed
  then show ?thesis using assms
    by (auto simp: mount_def load_store_def split: option.splits sum.splits)
qed

lemma foldl_update_wf:
  "distinct (map fst acc) \<Longrightarrow> distinct (map fst (foldl (\<lambda>acc p. AList.update (fst p) (snd p) acc) acc ps))"
  by (induction ps arbitrary: acc) (simp_all add: distinct_update)

lemma entries_of_json_keys: "entries_of_json xs = Some m \<Longrightarrow> map fst m = map fst xs"
  by (induction xs arbitrary: m) (auto split: option.splits)

lemma load_store_wf: "load_store data = Inr m \<Longrightarrow> obj_wf m"
proof -
  assume l: "load_store data = Inr m"
  then obtain ps where "json_parse data = Some (JObj ps)" "entries_of_json (json_object ps) = Some m"
    by (auto simp: load_store_def json_to_store_def split: option.splits json.splits)
  moreover have "distinct (map fst (json_object ps))"
    unfolding json_object_def by (rule foldl_update_wf) simp
  ultimately show "obj_wf m" by (simp add: obj_wf_def entries_of_json_keys)
qed

text \<open>
  C30. Whatever the browser has saved, a mount that does not throw yields a
  well-formed state: keys unique, the store saved as its own text, empty input and
  no error.
\<close>

theorem mount_wf:
  assumes "mount (init_state st rs) = Inr t"
  shows "obj_wf (urlMap t) \<and> storage t LOCAL_STORAGE_KEY = Some (stringify_store (urlMap t)) \<and>
         inputUrl t = [] \<and> error t = []"
  using assms load_store_wf
  by (auto simp: mount_def init_state_def persist_def obj_wf_def split: option.splits if_splits sum.splits)


subsection \<open>Witnesses\<close>

theorem load_store_stringify_witness:
  "\<exists>m'. load_store (stringify_store [(''abc123'', \<lparr>originalUrl = ''https://a.com'', clicks = 3\<rparr>)]) = Inr m' \<and>
     map_of m' = map_of [(''abc123'', \<lparr>originalUrl = ''https://a.com'', clicks = 3\<rparr>)] \<and>
     obj_keys m' = obj_keys [(''abc123'', \<lparr>originalUrl = ''https://a.com'', clicks = 3\<rparr>)] \<and>
     stringify_store m' = stringify_store [(''abc123'', \<lparr>originalUrl = ''https://a.com'', clicks = 3\<rparr>)]"
  by (rule load_store_stringify) (simp_all add: obj_wf_def clicks_bounded_def)

theorem mount_reload_witness:
  "\<exists>t. mount (init_state (storage (persist ((init_state Map.empty (sconst 0))
           \<lparr>urlMap := [(''abc123'', \<lparr>originalUrl = ''https://a.com'', clicks = 3\<rparr>)]\<rparr>))) (sconst 0)) = Inr t \<and>
     map_of (urlMap t) = map_of [(''abc123'', \<lparr>originalUrl = ''https://a.com'', clicks = 3\<rparr>)] \<and>
     obj_keys (urlMap t) = obj_keys [(''abc123'', \<lparr>originalUrl = ''https://a.com'', clicks = 3\<rparr>)] \<and>
     storage t = storage (persist ((init_state Map.empty (sconst 0))
           \<lparr>urlMap := [(''abc123'', \<lparr>originalUrl = ''https://a.com'', clicks = 3\<rparr>)]\<rparr>)) \<and>
     inputUrl t = [] \<and> error t = []"
  using mount_reload [of "persist ((init_state Map.empty (sconst 0))
           \<lparr>urlMap := [(''abc123'', \<lparr>originalUrl = ''https://a.com'', clicks = 3\<rparr>)]\<rparr>)" "sconst 0"]
  by (simp add: obj_wf_def clicks_bounded_def persist_def init_state_def)

theorem mount_syntax_error_witness:
  "mount (init_state [LOCAL_STORAGE_KEY \<mapsto> ''{''] (sconst 0)) = Inl SyntaxError"
  by (rule mount_syntax_error [of _ "''{''"]) (simp_all add: init_state_def json_parse_def skip_ws_def is_json_ws_def)

theorem mount_syntax_error_iff_witness:
  "mount (init_state [LOCAL_STORAGE_KEY \<mapsto> ''{''] (sconst 0)) = Inl SyntaxError \<longleftrightarrow>
     ''{'' \<noteq> [] \<and> \<not> (\<exists>n v r. parse_value n ''{'' = Some (v, r) \<and> skip_ws r = [])"
  by (rule mount_syntax_error_iff) (simp add: init_state_def)

theorem mount_wf_witness:
  "obj_wf (urlMap (set_url_map [(''abc123'', \<lparr>originalUrl = ''https://a.com'', clicks = 3\<rparr>)]
      (persist (init_state [LOCAL_STORAGE_KEY \<mapsto> stringify_store [(''abc123'', \<lparr>originalUrl = ''https://a.com'', clicks = 3\<rparr>)]] (sconst 0))))) \<and>
   storage (set_url_map [(''abc123'', \<lparr>originalUrl = ''https://a.com'', clicks = 3\<rparr>)]
      (persist (init_state [LOCAL_STORAGE_KEY \<mapsto> stringify_store [(''abc123'', \<lparr>originalUrl = ''https://a.com'', clicks = 3\<rparr>)]] (sconst 0)))) LOCAL_STORAGE_KEY
     = Some (stringify_store (urlMap (set_url_map [(''abc123'', \<lparr>originalUrl = ''https://a.com'', clicks = 3\<rparr>)]
      (persist (init_state [LOCAL_STORAGE_KEY \<mapsto> stringify_store [(''abc123'', \<lparr>originalUrl = ''https://a.com'', clicks = 3\<rparr>)]] (sconst 0)))))) \<and>
   inputUrl (set_url_map [(''abc123'', \<lparr>originalUrl = ''https://a.com'', clicks = 3\<rparr>)]
      (persist (init_state [LOCAL_STORAGE_KEY \<mapsto> stringify_store [(''abc123'', \<lparr>originalUrl = ''https://a.com'', clicks = 3\<rparr>)]] (sconst 0)))) = [] \<and>
   error (set_url_map [(''abc123'', \<lparr>originalUrl = ''https://a.com'', clicks = 3\<rparr>)]
      (persist (init_state [LOCAL_STORAGE_KEY \<mapsto> stringify_store [(''abc123'', \<lparr>originalUrl = ''https://a.com'', clicks = 3\<rparr>)]] (sconst 0)))) = []"
proof (rule mount_wf)
  have "obj_entries [(''abc123'', \<lparr>originalUrl = ''https://a.com'', clicks = 3\<rparr>)] =
        [(''abc123'', \<lparr>originalUrl = ''https://a.com'', clicks = 3\<rparr>)]"
    by (simp add: obj_entries_def is_array_index_def)
  then show "mount (init_state [LOCAL_STORAGE_KEY \<mapsto> stringify_store [(''abc123'', \<lparr>originalUrl = ''https://a.com'', clicks = 3\<rparr>)]] (sconst 0))
    = Inr (set_url_map [(''abc123'', \<lparr>originalUrl = ''https://a.com'', clicks = 3\<rparr>)]
      (persist (init_state [LOCAL_STORAGE_KEY \<mapsto> stringify_store [(''abc123'', \<lparr>originalUrl = ''https://a.com'', clicks = 3\<rparr>)]] (sconst 0))))"
    using mount_saved [of "[(''abc123'', \<lparr>originalUrl = ''https://a.com'', clicks = 3\<rparr>)]"
        "init_state [LOCAL_STORAGE_KEY \<mapsto> stringify_store [(''abc123'', \<lparr>originalUrl = ''https://a.com'', clicks = 3\<rparr>)]] (sconst 0)"]
    by (simp add: obj_wf_def clicks_bounded_def init_state_def)
qed





end
