(* ===== verification/KeyGen.thy ===== *)
theory KeyGen
  imports Prelude
begin

text \<open>
  The short-key generator \<open>generateShortKey\<close> of \<open>src/src/UrlShortener.jsx\<close>
  (lines 5--8). \<open>Math.random\<close> is the environment's source of randomness: the
  model reads its successive results from a stream of reals, and a call of the
  generator returns the key together with the rest of the stream. \<open>Array.from\<close>
  calls the mapping function once per position, in order, so a key of length
  \<open>n\<close> consumes the first \<open>n\<close> values. Indexing a string out of range yields
  \<open>undefined\<close>, which \<open>join('')\<close> renders as the empty string: the model keeps
  that, so the key has the requested length only because \<open>Math.random\<close> stays in
  \<open>[0, 1)\<close> (\<open>math_random_ok\<close>). The product \<open>r * 62\<close> is taken exactly;
  \<open>KeyGenDouble\<close> models it in IEEE arithmetic and shows every key computed
  there is a key of this model.
\<close>

definition key_chars :: js_string where
  "key_chars = ''abcdefghijklmnopqrstuvwxyzABCDEFGHIJKLMNOPQRSTUVWXYZ0123456789''"

text \<open>\<open>chars[i]\<close> as a string to be joined: one code unit, or nothing for \<open>undefined\<close>.\<close>

definition js_char_at :: "js_string \<Rightarrow> int \<Rightarrow> js_string" where
  "js_char_at s i = (if 0 \<le> i \<and> i < int (length s) then [s ! nat i] else [])"

definition random_char :: "real \<Rightarrow> js_string" where
  "random_char r = js_char_at key_chars \<lfloor>r * real (length key_chars)\<rfloor>"

definition generateShortKey :: "nat \<Rightarrow> real stream \<Rightarrow> js_string \<times> real stream" where
  "generateShortKey len rs = (concat (map random_char (stake len rs)), sdrop len rs)"

definition math_random_ok :: "real \<Rightarrow> bool" where
  "math_random_ok r \<longleftrightarrow> 0 \<le> r \<and> r < 1"

definition is_key_char :: "char \<Rightarrow> bool" where
  "is_key_char c \<longleftrightarrow> c \<in> set key_chars"

text \<open>The draw that produces a given character: the middle of its interval.\<close>

primrec char_pos :: "char \<Rightarrow> js_string \<Rightarrow> nat" where
  "char_pos c [] = 0"
| "char_pos c (x # xs) = (if x = c then 0 else Suc (char_pos c xs))"

definition char_draw :: "char \<Rightarrow> real" where
  "char_draw c = (real (char_pos c key_chars) + 1 / 2) / 62"

subsection \<open>The alphabet\<close>

lemma char_pos_nth: "c \<in> set xs \<Longrightarrow> char_pos c xs < length xs \<and> xs ! char_pos c xs = c"
  by (induction xs) auto

lemma length_key_chars [simp]: "length key_chars = 62"
  by (simp add: key_chars_def)

lemma distinct_key_chars: "distinct key_chars"
  by (simp add: key_chars_def)

lemma floor_index_bounds:
  assumes "math_random_ok r"
  shows "0 \<le> \<lfloor>r * 62\<rfloor> \<and> \<lfloor>r * 62\<rfloor> < 62"
proof -
  from assms have "0 \<le> r * 62" and "r * 62 < 62" by (auto simp: math_random_ok_def)
  then show ?thesis by (simp add: floor_less_iff)
qed

lemma random_char_ok:
  assumes "math_random_ok r"
  shows "random_char r = [key_chars ! nat \<lfloor>r * 62\<rfloor>] \<and> nat \<lfloor>r * 62\<rfloor> < 62"
  using floor_index_bounds [OF assms] by (simp add: random_char_def js_char_at_def nat_less_iff)

lemma random_char_in_alphabet:
  "math_random_ok r \<Longrightarrow> \<exists>c. random_char r = [c] \<and> is_key_char c"
  using random_char_ok [of r] by (auto simp: is_key_char_def)

lemma random_char_interval:
  assumes "math_random_ok r" and "i < 62"
  shows "random_char r = [key_chars ! i] \<longleftrightarrow> real i \<le> r * 62 \<and> r * 62 < real i + 1"
proof -
  have ok: "random_char r = [key_chars ! nat \<lfloor>r * 62\<rfloor>]" "nat \<lfloor>r * 62\<rfloor> < 62"
    using random_char_ok [OF assms(1)] by auto
  have "random_char r = [key_chars ! i] \<longleftrightarrow> nat \<lfloor>r * 62\<rfloor> = i"
    using ok assms(2) distinct_key_chars by (simp add: nth_eq_iff_index_eq)
  also have "\<dots> \<longleftrightarrow> \<lfloor>r * 62\<rfloor> = int i"
    using floor_index_bounds [OF assms(1)] by auto
  also have "\<dots> \<longleftrightarrow> real i \<le> r * 62 \<and> r * 62 < real i + 1"
    by (simp add: floor_eq_iff)
  finally show ?thesis .
qed

lemma concat_random_chars:
  "list_all math_random_ok xs \<Longrightarrow>
   length (concat (map random_char xs)) = length xs \<and> list_all is_key_char (concat (map random_char xs))"
proof (induction xs)
  case Nil
  then show ?case by simp
next
  case (Cons x xs)
  then obtain c where "random_char x = [c]" and "is_key_char c"
    using random_char_in_alphabet by auto
  with Cons show ?case by simp
qed

lemma char_draw_ok:
  assumes "is_key_char c"
  shows "math_random_ok (char_draw c) \<and> random_char (char_draw c) = [c]"
proof -
  let ?i = "char_pos c key_chars"
  have i: "?i < 62" and c: "key_chars ! ?i = c"
    using assms char_pos_nth [of c key_chars] by (auto simp: is_key_char_def)
  have ok: "math_random_ok (char_draw c)"
    using i by (simp add: char_draw_def math_random_ok_def)
  have "real ?i \<le> char_draw c * 62 \<and> char_draw c * 62 < real ?i + 1"
    by (simp add: char_draw_def)
  then have "random_char (char_draw c) = [key_chars ! ?i]"
    using random_char_interval [OF ok i] by simp
  with ok c show ?thesis by simp
qed

lemma concat_char_draws:
  "list_all is_key_char k \<Longrightarrow>
   list_all math_random_ok (map char_draw k) \<and> concat (map random_char (map char_draw k)) = k"
  by (induction k) (auto simp: char_draw_ok)

subsection \<open>Properties of the generator\<close>

text \<open>
  C8. With every draw of \<open>Math.random\<close> in \<open>[0, 1)\<close>, \<open>generateShortKey len\<close>
  returns a key of exactly \<open>len\<close> characters, all from the 62-character alphabet,
  and consumes exactly \<open>len\<close> draws.
\<close>

theorem generateShortKey_length_alphabet:
  assumes "list_all math_random_ok (stake len rs)"
  shows "length (fst (generateShortKey len rs)) = len \<and>
         list_all is_key_char (fst (generateShortKey len rs)) \<and>
         snd (generateShortKey len rs) = sdrop len rs"
  using concat_random_chars [OF assms] by (simp add: generateShortKey_def)

text \<open>
  C10. Every key of length \<open>len\<close> over the alphabet is produced by some sequence of
  valid draws: the retry loop of \<open>handleShorten\<close> can always find a free key.
\<close>

theorem generateShortKey_surjective:
  assumes "length k = len" and "list_all is_key_char k"
  shows "\<exists>rs. list_all math_random_ok (stake len rs) \<and> fst (generateShortKey len rs) = k"
proof -
  let ?rs = "map char_draw k @- sconst 0"
  have "stake len ?rs = map char_draw k"
    using assms(1) by (simp add: stake_shift)
  with concat_char_draws [OF assms(2)] show ?thesis
    by (intro exI [of _ ?rs]) (simp add: generateShortKey_def)
qed


subsection \<open>Witnesses\<close>

theorem generateShortKey_length_alphabet_witness:
  "length (fst (generateShortKey 6 (sconst (1 / 2)))) = 6 \<and>
   list_all is_key_char (fst (generateShortKey 6 (sconst (1 / 2)))) \<and>
   snd (generateShortKey 6 (sconst (1 / 2))) = sdrop 6 (sconst (1 / 2))"
  using generateShortKey_length_alphabet [of 6 "sconst (1 / 2)"]
  by (simp add: math_random_ok_def numeral_eq_Suc)

theorem generateShortKey_surjective_witness:
  "\<exists>rs. list_all math_random_ok (stake 6 rs) \<and> fst (generateShortKey 6 rs) = ''abc123''"
  using generateShortKey_surjective [of "''abc123''" 6]
  by (simp add: is_key_char_def key_chars_def)


end
