(* ===== verification/UrlCheck.thy ===== *)
theory UrlCheck
  imports Prelude
begin

text \<open>
  \<open>isValidUrl\<close> (\<open>src/src/UrlShortener.jsx\<close>, lines 10--17) calls the browser's
  \<open>new URL(url)\<close> without a base and turns the exception into \<open>false\<close>. The URL
  constructor is the WHATWG basic URL parser, a library of the browser; the model
  follows the parts of it that decide success or failure for an absolute URL:
  \<^item> leading and trailing C0 controls and spaces are stripped, and every tab, LF and
    CR is removed;
  \<^item> a scheme (an ASCII letter, then letters, digits, \<open>+\<close>, \<open>-\<close>, \<open>.\<close>)
    followed by \<open>:\<close> is required: without a base, a string with no scheme fails;
  \<^item> the special schemes \<open>http\<close>, \<open>https\<close>, \<open>ws\<close>, \<open>wss\<close>, \<open>ftp\<close> need a
    non-empty host after any run of slashes or backslashes and optional credentials;
    the host is parsed by the host parser (\<open>host_ok\<close>): an IPv6 address in
    brackets (\<open>ipv6_ok\<close>), or a domain that is percent-decoded, lower-cased, free of
    forbidden domain code points, and, when its last label is a number, a valid IPv4
    address in any of the parser's notations (\<open>ipv4_ok\<close>); a port after the
    host's last \<open>:\<close> outside brackets must be decimal and at most 65535;
  \<^item> \<open>file\<close> URLs with \<open>//\<close> have a host checked the same way, unless it is
    empty or a Windows drive letter;
  \<^item> the other schemes (\<open>mailto:\<close>, \<open>javascript:\<close>, \<open>a:b\<close>) are accepted,
    except that an authority after \<open>//\<close> is checked as an opaque host (an IPv6
    address in brackets or no forbidden host code point) and a port.
  Not modelled: the UTF-8 decoding of percent-decoded bytes and the IDNA processing of
  non-ASCII domains and of \<open>xn--\<close> labels; there the model accepts what the parser
  may reject.
\<close>

definition is_c0_or_space :: "char \<Rightarrow> bool" where
  "is_c0_or_space c \<longleftrightarrow> (of_char c :: nat) \<le> 32"

definition is_tab_or_newline :: "char \<Rightarrow> bool" where
  "is_tab_or_newline c \<longleftrightarrow> (of_char c :: nat) \<in> {9, 10, 13}"

definition url_preprocess :: "js_string \<Rightarrow> js_string" where
  "url_preprocess s =
     filter (\<lambda>c. \<not> is_tab_or_newline c)
       (rev (dropWhile is_c0_or_space (rev (dropWhile is_c0_or_space s))))"

definition is_ascii_alpha :: "char \<Rightarrow> bool" where
  "is_ascii_alpha c \<longleftrightarrow>
     (65 \<le> (of_char c :: nat) \<and> (of_char c :: nat) \<le> 90) \<or>
     (97 \<le> (of_char c :: nat) \<and> (of_char c :: nat) \<le> 122)"

definition is_scheme_char :: "char \<Rightarrow> bool" where
  "is_scheme_char c \<longleftrightarrow> is_ascii_alpha c \<or> is_digit c \<or> c \<in> set ''+-.''"

definition ascii_lower :: "char \<Rightarrow> char" where
  "ascii_lower c = (if 65 \<le> (of_char c :: nat) \<and> (of_char c :: nat) \<le> 90 then char_of (of_char c + (32 :: nat)) else c)"

definition special_schemes :: "js_string list" where
  "special_schemes = [''ftp'', ''http'', ''https'', ''ws'', ''wss'']"

definition forbidden_host_chars :: js_string where
  "forbidden_host_chars =
     [CHR 0x00, CHR 0x09, CHR 0x0A, CHR 0x0D, CHR 0x20, CHR ''#'', CHR ''/'', CHR '':'',
      CHR ''<'', CHR ''>'', CHR ''?'', CHR ''@'', CHR ''['', CHR 0x5C, CHR '']'', CHR ''^'', CHR ''|'']"

definition is_forbidden_domain_char :: "char \<Rightarrow> bool" where
  "is_forbidden_domain_char c \<longleftrightarrow>
     c \<in> set forbidden_host_chars \<or> (of_char c :: nat) < 32 \<or> c = CHR ''%'' \<or> (of_char c :: nat) = 127"

definition port_ok :: "js_string \<Rightarrow> bool" where
  "port_ok p \<longleftrightarrow> list_all is_digit p \<and> nat_of_digits p \<le> 65535"

subsection \<open>Host parsing\<close>

text \<open>The value of a digit in base 8, 10 or 16, if it is one.\<close>

definition radix_digit :: "nat \<Rightarrow> char \<Rightarrow> nat option" where
  "radix_digit r c =
     (let n = (of_char c :: nat);
          v = (if 48 \<le> n \<and> n \<le> 57 then Some (n - 48)
               else if 97 \<le> n \<and> n \<le> 102 then Some (n - 87)
               else if 65 \<le> n \<and> n \<le> 70 then Some (n - 55) else None)
      in (case v of Some d \<Rightarrow> if d < r then Some d else None | None \<Rightarrow> None))"

definition radix_value :: "nat \<Rightarrow> js_string \<Rightarrow> nat option" where
  "radix_value r s =
     foldl (\<lambda>acc c. case (acc, radix_digit r c) of (Some a, Some d) \<Rightarrow> Some (r * a + d) | _ \<Rightarrow> None) (Some 0) s"

text \<open>\<open>%XX\<close> with two hexadecimal digits becomes the byte \<open>XX\<close>; any other \<open>%\<close> stays.\<close>

fun percent_decode :: "js_string \<Rightarrow> js_string" where
  "percent_decode (c # a # b # rest) =
     (case (radix_digit 16 a, radix_digit 16 b) of
        (Some x, Some y) \<Rightarrow> if c = CHR ''%'' then char_of (16 * x + y) # percent_decode rest
                           else c # percent_decode (a # b # rest)
      | _ \<Rightarrow> c # percent_decode (a # b # rest))"
| "percent_decode cs = cs"

fun split_on :: "char \<Rightarrow> js_string \<Rightarrow> js_string list" where
  "split_on d [] = [[]]"
| "split_on d (c # cs) =
     (if c = d then [] # split_on d cs
      else (case split_on d cs of p # ps \<Rightarrow> (c # p) # ps | [] \<Rightarrow> [[c]]))"

text \<open>
  The IPv4 number parser: \<open>0x\<close> or \<open>0X\<close> introduces hexadecimal, another
  leading \<open>0\<close> octal; the empty string is a failure, a bare prefix is zero.
\<close>

definition ipv4_number :: "js_string \<Rightarrow> nat option" where
  "ipv4_number s =
     (if s = [] then None
      else let (r, t) = (if 2 \<le> length s \<and> take 2 s \<in> {''0x'', ''0X''} then (16, drop 2 s)
                         else if 2 \<le> length s \<and> hd s = CHR ''0'' then (8, tl s) else (10, s))
           in radix_value r t)"

definition drop_last_empty :: "js_string list \<Rightarrow> js_string list" where
  "drop_last_empty ps = (if 1 < length ps \<and> last ps = [] then butlast ps else ps)"

definition ends_in_number :: "js_string \<Rightarrow> bool" where
  "ends_in_number d =
     (let ps = split_on CHR ''.'' d in
      if last ps = [] \<and> length ps = 1 then False
      else let l = last (drop_last_empty ps) in
           (l \<noteq> [] \<and> list_all is_digit l) \<or> ipv4_number l \<noteq> None)"

definition ipv4_ok :: "js_string \<Rightarrow> bool" where
  "ipv4_ok d =
     (let ps = drop_last_empty (split_on CHR ''.'' d); ns = map ipv4_number ps in
      length ps \<le> 4 \<and> list_all (\<lambda>n. n \<noteq> None) ns \<and>
      list_all (\<lambda>n. the n \<le> 255) (butlast ns) \<and> the (last ns) < 256 ^ (5 - length ps))"

text \<open>The dotted quad at the end of an IPv6 address: four decimal bytes without leading zeros.\<close>

definition dec_byte :: "js_string \<Rightarrow> bool" where
  "dec_byte p \<longleftrightarrow> p \<noteq> [] \<and> list_all is_digit p \<and> (hd p = CHR ''0'' \<longrightarrow> length p = 1) \<and>
                    nat_of_digits p \<le> 255"

definition ipv6_ipv4_ok :: "js_string \<Rightarrow> bool" where
  "ipv6_ipv4_ok s = (let ps = split_on CHR ''.'' s in length ps = 4 \<and> list_all dec_byte ps)"

definition is_hex :: "char \<Rightarrow> bool" where
  "is_hex c \<longleftrightarrow> radix_digit 16 c \<noteq> None"

text \<open>
  The main loop of the IPv6 parser, deciding success: the index of the next piece,
  the index where \<open>::\<close> compressed zeros (if it did), the rest of the input.
\<close>

function ipv6_loop :: "nat \<Rightarrow> nat option \<Rightarrow> js_string \<Rightarrow> bool" where
  "ipv6_loop ix cmp [] \<longleftrightarrow> cmp \<noteq> None \<or> ix = 8"
| "ipv6_loop ix cmp (c # cs) =
     (if ix = 8 then False
      else if c = CHR '':'' then cmp = None \<and> ipv6_loop (Suc ix) (Some (Suc ix)) cs
      else (let h = takeWhile is_hex (take 4 (c # cs)); rest = drop (length h) (c # cs) in
            case rest of
              [] \<Rightarrow> ipv6_loop (Suc ix) cmp []
            | d # r \<Rightarrow>
                if d = CHR ''.'' then h \<noteq> [] \<and> ix \<le> 6 \<and> ipv6_ipv4_ok (c # cs) \<and> (cmp \<noteq> None \<or> ix = 6)
                else if d = CHR '':'' then r \<noteq> [] \<and> ipv6_loop (Suc ix) cmp r
                else False))"
  by pat_completeness auto
termination
proof (relation "measure (\<lambda>(_, _, s). length s)")
  fix ix cmp c cs h rest d r
  assume "rest = drop (length h) (c # cs)" and "rest = d # r"
  then have "length (d # r) \<le> length (c # cs)" by (metis length_drop diff_le_self)
  then show "((Suc ix, cmp, r), ix, cmp, c # cs) \<in> measure (\<lambda>(_, _, s). length s)" by simp
qed auto

definition ipv6_ok :: "js_string \<Rightarrow> bool" where
  "ipv6_ok s =
     (case s of
        c # cs \<Rightarrow> if c = CHR '':'' then (case cs of d # r \<Rightarrow> d = CHR '':'' \<and> ipv6_loop 1 (Some 1) r | [] \<Rightarrow> False)
                 else ipv6_loop 0 None s
      | [] \<Rightarrow> ipv6_loop 0 None [])"

text \<open>A host in brackets: its first character is \<open>[\<close>.\<close>

definition in_brackets :: "js_string \<Rightarrow> bool" where
  "in_brackets h \<longleftrightarrow> take 1 h = ''[''"

definition bracket_ok :: "js_string \<Rightarrow> bool" where
  "bracket_ok h \<longleftrightarrow> 2 \<le> length h \<and> last h = CHR '']'' \<and> ipv6_ok (butlast (tl h))"

text \<open>
  The host parser for a special scheme. A host starting with \<open>[\<close> must end with
  \<open>]\<close> around an IPv6 address. Otherwise the domain is percent-decoded and lower-cased (domain to
  ASCII for an ASCII domain), must be non-empty and free of forbidden domain code
  points, and is an IPv4 address when it ends in a number.
\<close>

definition host_ok :: "js_string \<Rightarrow> bool" where
  "host_ok h =
     (if in_brackets h then bracket_ok h
      else (let d = map ascii_lower (percent_decode h) in
            d \<noteq> [] \<and> list_all (\<lambda>c. \<not> is_forbidden_domain_char c) d \<and>
            (ends_in_number d \<longrightarrow> ipv4_ok d)))"

text \<open>The opaque host of a non-special scheme.\<close>

definition opaque_host_ok :: "js_string \<Rightarrow> bool" where
  "opaque_host_ok h =
     (if in_brackets h then bracket_ok h else list_all (\<lambda>c. c \<notin> set forbidden_host_chars) h)"

subsection \<open>Authorities\<close>

text \<open>The part after the last \<open>@\<close> of an authority.\<close>

definition after_credentials :: "js_string \<Rightarrow> js_string" where
  "after_credentials a = rev (takeWhile (\<lambda>c. c \<noteq> CHR ''@'') (rev a))"

text \<open>Host and port: the first \<open>:\<close> outside brackets separates them.\<close>

fun split_port_br :: "bool \<Rightarrow> js_string \<Rightarrow> js_string \<times> js_string" where
  "split_port_br br [] = ([], [])"
| "split_port_br br (c # cs) =
     (if c = CHR '':'' \<and> \<not> br then ([], cs)
      else (let (h, p) = split_port_br (if c = CHR ''['' then True else if c = CHR '']'' then False else br) cs
            in (c # h, p)))"

definition split_port :: "js_string \<Rightarrow> js_string \<times> js_string" where
  "split_port hp = split_port_br False hp"

definition special_authority_ok :: "js_string \<Rightarrow> bool" where
  "special_authority_ok r =
     (let a = takeWhile (\<lambda>c. c \<notin> set [CHR ''/'', CHR 0x5C, CHR ''?'', CHR ''#''])
                (dropWhile (\<lambda>c. c \<in> set [CHR ''/'', CHR 0x5C]) r);
          (h, p) = split_port (after_credentials a)
      in h \<noteq> [] \<and> host_ok h \<and> port_ok p)"

definition is_drive_letter :: "js_string \<Rightarrow> bool" where
  "is_drive_letter h \<longleftrightarrow> length h = 2 \<and> is_ascii_alpha (h ! 0) \<and> h ! 1 \<in> set '':|''"

definition file_authority_ok :: "js_string \<Rightarrow> bool" where
  "file_authority_ok r =
     (case r of
        c1 # c2 # rest \<Rightarrow>
          (if c1 \<in> set [CHR ''/'', CHR 0x5C] \<and> c2 \<in> set [CHR ''/'', CHR 0x5C] then
             (let h = takeWhile (\<lambda>c. c \<notin> set [CHR ''/'', CHR 0x5C, CHR ''?'', CHR ''#'']) rest
              in h = [] \<or> is_drive_letter h \<or> host_ok h)
           else True)
      | _ \<Rightarrow> True)"

definition opaque_authority_ok :: "js_string \<Rightarrow> bool" where
  "opaque_authority_ok r =
     (case r of
        c1 # c2 # rest \<Rightarrow>
          (if c1 = CHR ''/'' \<and> c2 = CHR ''/'' then
             (let a = takeWhile (\<lambda>c. c \<notin> set [CHR ''/'', CHR ''?'', CHR ''#'']) rest;
                  (h, p) = split_port (after_credentials a)
              in opaque_host_ok h \<and> port_ok p)
           else True)
      | _ \<Rightarrow> True)"

definition url_parse_ok :: "js_string \<Rightarrow> bool" where
  "url_parse_ok s =
     (let t = url_preprocess s; sch = takeWhile is_scheme_char t; rest = drop (length sch) t
      in (case t of [] \<Rightarrow> False | c # _ \<Rightarrow> is_ascii_alpha c) \<and>
         (case rest of [] \<Rightarrow> False | c # r \<Rightarrow> c = CHR '':'' \<and>
            (if map ascii_lower sch \<in> set special_schemes then special_authority_ok r
             else if map ascii_lower sch = ''file'' then file_authority_ok r
             else opaque_authority_ok r)))"

text \<open>\<open>isValidUrl\<close>: the constructor either returns (\<open>true\<close>) or throws (\<open>false\<close>).\<close>

definition isValidUrl :: "js_string \<Rightarrow> bool" where
  "isValidUrl url = url_parse_ok url"

lemmas url_defs = isValidUrl_def url_parse_ok_def url_preprocess_def is_c0_or_space_def
  is_tab_or_newline_def is_scheme_char_def is_ascii_alpha_def is_digit_def ascii_lower_def
  special_schemes_def special_authority_ok_def opaque_authority_ok_def split_port_def
  after_credentials_def is_forbidden_domain_char_def forbidden_host_chars_def port_ok_def
  host_ok_def in_brackets_def bracket_ok_def ends_in_number_def drop_last_empty_def ipv4_number_def
  radix_digit_def radix_value_def file_authority_ok_def

subsection \<open>Schemes without an authority\<close>

lemma url_preprocess_prefix:
  assumes "p \<noteq> []" "\<not> is_c0_or_space (hd p)" "\<not> is_c0_or_space (last p)"
    "list_all (\<lambda>c. \<not> is_tab_or_newline c) p"
  shows "url_preprocess (p @ s) = p @ filter (\<lambda>c. \<not> is_tab_or_newline c) (rev (dropWhile is_c0_or_space (rev s)))"
proof -
  obtain a p' where p: "p = a # p'" using assms(1) by (cases p) auto
  have d1: "dropWhile is_c0_or_space (p @ s) = p @ s" using assms(2) p by simp
  have rp: "dropWhile is_c0_or_space (rev p) = rev p"
    using assms(1,3) by (cases "rev p") (auto simp: last_rev [symmetric])
  have fp: "filter (\<lambda>c. \<not> is_tab_or_newline c) p = p" using assms(4) by (simp add: list_all_iff)
  have u: "url_preprocess (p @ s) =
           filter (\<lambda>c. \<not> is_tab_or_newline c) (rev (dropWhile is_c0_or_space (rev s @ rev p)))"
    by (simp add: url_preprocess_def d1)
  show ?thesis
  proof (cases "\<forall>x \<in> set (rev s). is_c0_or_space x")
    case True
    then have "dropWhile is_c0_or_space (rev s @ rev p) = dropWhile is_c0_or_space (rev p)"
      by (intro dropWhile_append2) blast
    with rp have e1: "dropWhile is_c0_or_space (rev s @ rev p) = rev p" by simp
    have e0: "dropWhile is_c0_or_space (rev s) = []" using True by (simp only: dropWhile_eq_Nil_conv)
    show ?thesis unfolding u e1 e0 using fp by simp
  next
    case False
    then obtain x where "x \<in> set (rev s)" "\<not> is_c0_or_space x" by blast
    then have "dropWhile is_c0_or_space (rev s @ rev p) = dropWhile is_c0_or_space (rev s) @ rev p"
      by (rule dropWhile_append1)
    then show ?thesis unfolding u using fp by simp
  qed
qed

lemma trim_end_prefix: "\<exists>v. s = rev (dropWhile P (rev s)) @ v"
proof -
  have "rev s = takeWhile P (rev s) @ dropWhile P (rev s)" by simp
  then have "s = rev (dropWhile P (rev s)) @ rev (takeWhile P (rev s))"
    by (metis rev_append rev_rev_ident)
  then show ?thesis by blast
qed

text \<open>
  A \<open>javascript:\<close> URL is valid whatever follows the scheme, unless it starts with
  \<open>//\<close> (an authority).
\<close>

lemma javascript_url_valid:
  assumes "\<not> (s \<noteq> [] \<and> (hd s = CHR ''/'' \<or> is_tab_or_newline (hd s)))"
  shows "isValidUrl (''javascript:'' @ s)"
proof -
  let ?w = "rev (dropWhile is_c0_or_space (rev s))"
  let ?s' = "filter (\<lambda>c. \<not> is_tab_or_newline c) ?w"
  have pre: "url_preprocess (''javascript:'' @ s) = ''javascript:'' @ ?s'"
    by (rule url_preprocess_prefix) (simp_all add: is_c0_or_space_def is_tab_or_newline_def)
  have op: "opaque_authority_ok ?s'"
  proof (cases ?w)
    case Nil
    then have "?s' = []" by (simp only: filter.simps)
    then show ?thesis by (simp add: opaque_authority_ok_def)
  next
    case (Cons c w')
    obtain v where "s = ?w @ v" using trim_end_prefix by blast
    with Cons have "s = c # w' @ v" by simp
    then have "hd s = c" "s \<noteq> []" by simp_all
    with Cons assms have "?s' = c # filter (\<lambda>c. \<not> is_tab_or_newline c) w'" "c \<noteq> CHR ''/''" by auto
    then show ?thesis by (auto simp: opaque_authority_ok_def split: list.splits)
  qed
  show ?thesis
    using pre op by (simp add: isValidUrl_def url_parse_ok_def is_scheme_char_def is_ascii_alpha_def
        is_digit_def ascii_lower_def special_schemes_def)
qed

end
