(* ===== verification/Shortener.thy ===== *)
theory Shortener
  imports Store KeyGen UrlCheck
begin

text \<open>
  \<open>handleShorten\<close> (\<open>src/src/UrlShortener.jsx\<close>, lines 33--66). React batches
  the state updates of one handler, so \<open>setError('')\<close> followed by
  \<open>setError(msg)\<close> leaves \<open>msg\<close>. The checks come in the code's order: an input
  that trims to the empty string, an input \<open>new URL\<close> rejects, an input some entry
  already holds (an \<open>alert\<close>, the input cleared, nothing stored), and otherwise the
  \<open>do \<dots> while (urlMap[shortKey])\<close> loop draws keys until one is not a property of
  \<open>urlMap\<close> and stores \<open>{originalUrl: inputUrl, clicks: 0}\<close> under it. The
  loop has no bound: it is \<open>find_fresh_key\<close>, defined with
  \<^theory_text>\<open>partial_function (option)\<close>, whose \<open>None\<close> is a loop that never ends
  (every draw collides). No 6-character alphanumeric key names a property of
  \<open>Object.prototype\<close>, so \<open>urlMap[shortKey]\<close> sees own properties only.
  \<open>if (existingKey)\<close> tests truthiness: a found key \<open>''''\<close> counts as not found.
\<close>

definition msg_empty :: js_string where "msg_empty = ''Please enter a URL.''"
definition msg_invalid :: js_string where "msg_invalid = ''Invalid URL format.''"
definition msg_duplicate :: js_string where "msg_duplicate = ''URL already shortened.''"

text \<open>\<open>Object.keys(urlMap).find(key => urlMap[key].originalUrl === inputUrl)\<close>.\<close>

definition find_existing :: "url_map \<Rightarrow> js_string \<Rightarrow> js_string option" where
  "find_existing m u =
     find (\<lambda>k. case map_of m k of Some e \<Rightarrow> originalUrl e = u | None \<Rightarrow> False) (obj_keys m)"

partial_function (option) find_fresh_key ::
  "url_map \<Rightarrow> real stream \<Rightarrow> (js_string \<times> real stream) option" where
  "find_fresh_key m rs =
     (case generateShortKey 6 rs of
        (k, rs') \<Rightarrow> if map_of m k = None then Some (k, rs') else find_fresh_key m rs')"

definition new_entry :: "js_string \<Rightarrow> entry" where
  "new_entry u = \<lparr>originalUrl = u, clicks = 0\<rparr>"

text \<open>Lines 55--65: the loop, the new object, \<open>setUrlMap\<close>, \<open>setInputUrl('')\<close>.\<close>

definition add_new_entry :: "app \<Rightarrow> app option" where
  "add_new_entry s =
     (case find_fresh_key (urlMap s) (rng s) of
        None \<Rightarrow> None
      | Some (k, rs') \<Rightarrow>
          Some (set_url_map (AList.update k (new_entry (inputUrl s)) (obj_spread (urlMap s)))
                  (s\<lparr>inputUrl := [], rng := rs'\<rparr>)))"

definition handleShorten :: "app \<Rightarrow> app option" where
  "handleShorten s =
     (let s0 = s\<lparr>error := []\<rparr> in
      if js_trim (inputUrl s) = [] then Some (s0\<lparr>error := msg_empty\<rparr>)
      else if \<not> isValidUrl (inputUrl s) then Some (s0\<lparr>error := msg_invalid\<rparr>)
      else (case find_existing (urlMap s) (inputUrl s) of
              Some k \<Rightarrow>
                if k \<noteq> [] then Some (s0\<lparr>alerts := alerts s @ [msg_duplicate], inputUrl := []\<rparr>)
                else add_new_entry s0
            | None \<Rightarrow> add_new_entry s0))"

text \<open>The \<open>n\<close>-th key the loop draws (counting from 0).\<close>

definition key_draw :: "real stream \<Rightarrow> nat \<Rightarrow> js_string" where
  "key_draw rs n = fst (generateShortKey 6 (sdrop (6 * n) rs))"

text \<open>Some entry holds the URL \<open>u\<close>.\<close>

definition url_stored :: "url_map \<Rightarrow> js_string \<Rightarrow> bool" where
  "url_stored m u \<longleftrightarrow> list_ex (\<lambda>e. originalUrl (snd e) = u) m"

subsection \<open>The retry loop\<close>

lemma find_fresh_key_fresh:
  "map_of m (key_draw rs 0) = None \<Longrightarrow> find_fresh_key m rs = Some (key_draw rs 0, sdrop 6 rs)"
  by (subst find_fresh_key.simps) (simp add: key_draw_def generateShortKey_def)

lemma find_fresh_key_collide:
  "map_of m (key_draw rs 0) \<noteq> None \<Longrightarrow> find_fresh_key m rs = find_fresh_key m (sdrop 6 rs)"
  by (subst find_fresh_key.simps) (auto simp: key_draw_def generateShortKey_def)

lemma key_draw_Suc: "key_draw (sdrop 6 rs) n = key_draw rs (Suc n)"
  by (simp add: key_draw_def add.commute)

lemma find_fresh_key_at:
  "\<forall>i<n. map_of m (key_draw rs i) \<noteq> None \<Longrightarrow> map_of m (key_draw rs n) = None \<Longrightarrow>
   find_fresh_key m rs = Some (key_draw rs n, sdrop (6 * Suc n) rs)"
proof (induction n arbitrary: rs)
  case 0
  then show ?case by (simp add: find_fresh_key_fresh)
next
  case (Suc n)
  have "find_fresh_key m rs = find_fresh_key m (sdrop 6 rs)"
    using Suc.prems(1) by (intro find_fresh_key_collide) simp
  also have "\<dots> = Some (key_draw (sdrop 6 rs) n, sdrop (6 * Suc n) (sdrop 6 rs))"
    using Suc.prems by (intro Suc.IH) (simp_all add: key_draw_Suc)
  finally show ?case by (simp add: key_draw_Suc add.commute)
qed

lemma find_fresh_key_Some_draw:
  assumes "find_fresh_key m rs = Some r"
  shows "\<exists>n. (\<forall>i<n. map_of m (key_draw rs i) \<noteq> None) \<and> map_of m (key_draw rs n) = None \<and>
             r = (key_draw rs n, sdrop (6 * Suc n) rs)"
proof (rule find_fresh_key.raw_induct [where P = "\<lambda>m rs r. \<exists>n. (\<forall>i<n. map_of m (key_draw rs i) \<noteq> None) \<and>
      map_of m (key_draw rs n) = None \<and> r = (key_draw rs n, sdrop (6 * Suc n) rs)", OF _ assms])
  fix f m rs r
  assume IH: "\<And>m rs r. f m rs = Some r \<Longrightarrow> \<exists>n. (\<forall>i<n. map_of m (key_draw rs i) \<noteq> None) \<and>
      map_of m (key_draw rs n) = None \<and> r = (key_draw rs n, sdrop (6 * Suc n) rs)"
    and eq: "(case generateShortKey 6 rs of (k, rs') \<Rightarrow>
              if map_of m k = None then Some (k, rs') else f m rs') = Some r"
  show "\<exists>n. (\<forall>i<n. map_of m (key_draw rs i) \<noteq> None) \<and>
      map_of m (key_draw rs n) = None \<and> r = (key_draw rs n, sdrop (6 * Suc n) rs)"
  proof (cases "map_of m (key_draw rs 0) = None")
    case True
    with eq show ?thesis by (intro exI [of _ 0]) (auto simp: key_draw_def generateShortKey_def)
  next
    case False
    with eq have "f m (sdrop 6 rs) = Some r" by (auto simp: key_draw_def generateShortKey_def)
    then obtain n where "\<forall>i<n. map_of m (key_draw (sdrop 6 rs) i) \<noteq> None"
      and "map_of m (key_draw (sdrop 6 rs) n) = None"
      and "r = (key_draw (sdrop 6 rs) n, sdrop (6 * Suc n) (sdrop 6 rs))"
      using IH by blast
    with False show ?thesis
      by (intro exI [of _ "Suc n"]) (auto simp: key_draw_Suc less_Suc_eq_0_disj add.commute)
  qed
qed

lemma find_fresh_key_iff:
  "find_fresh_key m rs = Some r \<longleftrightarrow>
   (\<exists>n. (\<forall>i<n. map_of m (key_draw rs i) \<noteq> None) \<and> map_of m (key_draw rs n) = None \<and>
        r = (key_draw rs n, sdrop (6 * Suc n) rs))"
  using find_fresh_key_Some_draw find_fresh_key_at by blast

lemma find_fresh_key_returns_first:
  assumes "map_of m (key_draw rs n) = None"
  shows "\<exists>j\<le>n. find_fresh_key m rs = Some (key_draw rs j, sdrop (6 * Suc j) rs)"
proof -
  obtain j where j: "map_of m (key_draw rs j) = None" "\<forall>i<j. map_of m (key_draw rs i) \<noteq> None" "j \<le> n"
    using assms ex_least_nat_le [of "\<lambda>i. map_of m (key_draw rs i) = None" n] by auto
  then show ?thesis using find_fresh_key_at [of j m rs] by blast
qed

lemma find_fresh_key_fresh_key:
  "find_fresh_key m rs = Some (k, rs') \<Longrightarrow> map_of m k = None"
  using find_fresh_key_Some_draw by fastforce

subsection \<open>Duplicate detection\<close>

lemma find_existing_None_iff:
  assumes "obj_wf m"
  shows "find_existing m u = None \<longleftrightarrow> \<not> url_stored m u"
proof -
  have "\<And>k e. map_of m k = Some e \<longleftrightarrow> (k, e) \<in> set m"
    using assms by (simp add: obj_wf_def map_of_eq_Some_iff)
  then show ?thesis
    by (fastforce simp: find_existing_def find_None_iff set_obj_keys url_stored_def list_ex_iff
        split: option.splits)
qed

lemma find_existing_Some:
  "find_existing m u = Some k \<Longrightarrow> \<exists>e. map_of m k = Some e \<and> originalUrl e = u"
  by (auto simp: find_existing_def find_Some_iff split: option.splits)

lemma find_existing_unique:
  assumes wf: "obj_wf m" and k: "map_of m k = Some e" "originalUrl e = u"
    and only: "\<not> url_stored (AList.delete k m) u"
  shows "find_existing m u = Some k"
proof -
  have "url_stored m u"
    using map_of_SomeD [OF k(1)] k(2) by (force simp: url_stored_def list_ex_iff)
  then obtain k' where k': "find_existing m u = Some k'"
    using find_existing_None_iff [OF wf] by fastforce
  then obtain e' where "map_of m k' = Some e'" "originalUrl e' = u"
    using find_existing_Some by blast
  then have "k' = k"
    using only map_of_SomeD by (fastforce simp: url_stored_def list_ex_iff AList.delete_eq)
  with k' show ?thesis by simp
qed

subsection \<open>The branches of handleShorten\<close>

lemma handleShorten_empty [handler_simps]:
  "js_trim (inputUrl s) = [] \<Longrightarrow> handleShorten s = Some (s\<lparr>error := msg_empty\<rparr>)"
  by (simp add: handleShorten_def)

lemma handleShorten_invalid [handler_simps]:
  "js_trim (inputUrl s) \<noteq> [] \<Longrightarrow> \<not> isValidUrl (inputUrl s) \<Longrightarrow>
   handleShorten s = Some (s\<lparr>error := msg_invalid\<rparr>)"
  by (simp add: handleShorten_def)

lemma handleShorten_duplicate [handler_simps]:
  "js_trim (inputUrl s) \<noteq> [] \<Longrightarrow> isValidUrl (inputUrl s) \<Longrightarrow>
   find_existing (urlMap s) (inputUrl s) = Some k \<Longrightarrow> k \<noteq> [] \<Longrightarrow>
   handleShorten s = Some (s\<lparr>error := [], alerts := alerts s @ [msg_duplicate], inputUrl := []\<rparr>)"
  by (simp add: handleShorten_def)

lemma handleShorten_fresh [handler_simps]:
  "js_trim (inputUrl s) \<noteq> [] \<Longrightarrow> isValidUrl (inputUrl s) \<Longrightarrow>
   find_existing (urlMap s) (inputUrl s) = None \<Longrightarrow>
   handleShorten s = add_new_entry (s\<lparr>error := []\<rparr>)"
  by (simp add: handleShorten_def)

lemma add_new_entry_Some [handler_simps]:
  "obj_wf (urlMap s) \<Longrightarrow> find_fresh_key (urlMap s) (rng s) = Some (k, rs') \<Longrightarrow>
   add_new_entry s =
     Some (set_url_map (AList.update k (new_entry (inputUrl s)) (obj_entries (urlMap s)))
             (s\<lparr>inputUrl := [], rng := rs'\<rparr>))"
  by (simp add: add_new_entry_def obj_spread_entries)

subsection \<open>Properties of handleShorten\<close>

text \<open>
  C1. Shortening a well-formed URL that no entry holds yet, with a sequence of
  \<open>Math.random\<close> draws in which some key is free, returns: the new store is the old
  one with exactly one more entry, under a key that was not in use, holding the URL
  with zero clicks; the input and the error are cleared and the store is persisted.
\<close>

theorem handleShorten_adds_entry:
  assumes wf: "obj_wf (urlMap s)"
    and nonempty: "js_trim (inputUrl s) \<noteq> []"
    and valid: "isValidUrl (inputUrl s)"
    and new: "\<not> url_stored (urlMap s) (inputUrl s)"
    and free: "map_of (urlMap s) (key_draw (rng s) n) = None"
  shows "\<exists>k s'. handleShorten s = Some s' \<and> k \<notin> fst ` set (urlMap s) \<and>
           map_of (urlMap s') = (map_of (urlMap s))(k \<mapsto> new_entry (inputUrl s)) \<and>
           length (urlMap s') = Suc (length (urlMap s)) \<and>
           inputUrl s' = [] \<and> error s' = [] \<and>
           storage s' LOCAL_STORAGE_KEY = Some (stringify_store (urlMap s'))"
proof -
  let ?m = "urlMap s"
  obtain j where fk: "find_fresh_key ?m (rng s) = Some (key_draw (rng s) j, sdrop (6 * Suc j) (rng s))"
    using find_fresh_key_returns_first [OF free] by blast
  let ?k = "key_draw (rng s) j"
  have k_free: "?k \<notin> fst ` set ?m"
    using find_fresh_key_fresh_key [OF fk] by (simp add: map_of_eq_None_iff)
  have "find_existing ?m (inputUrl s) = None"
    using find_existing_None_iff [OF wf] new by simp
  then have "handleShorten s =
      Some (set_url_map (AList.update ?k (new_entry (inputUrl s)) (obj_entries ?m))
              (s\<lparr>error := [], inputUrl := [], rng := sdrop (6 * Suc j) (rng s)\<rparr>))"
    using nonempty valid wf fk by (simp add: handleShorten_fresh add_new_entry_Some)
  moreover have "map_of (AList.update ?k (new_entry (inputUrl s)) (obj_entries ?m)) =
                 (map_of ?m)(?k \<mapsto> new_entry (inputUrl s))"
    using wf by (simp add: update_conv' map_of_obj_entries)
  moreover have "length (AList.update ?k (new_entry (inputUrl s)) (obj_entries ?m)) = Suc (length ?m)"
    using k_free by (simp add: length_update_new)
  ultimately show ?thesis using k_free by auto
qed

text \<open>
  C2. A non-empty input that \<open>new URL\<close> rejects leaves the store, the input and the
  environment unchanged and reports \<open>Invalid URL format.\<close>
\<close>

theorem handleShorten_rejects_invalid:
  assumes "js_trim (inputUrl s) \<noteq> []" and "\<not> isValidUrl (inputUrl s)"
  shows "handleShorten s = Some (s\<lparr>error := ''Invalid URL format.''\<rparr>)"
  using assms by (simp add: handleShorten_invalid msg_invalid_def)

text \<open>
  C6. An input that some entry already holds (under a non-empty key) changes no
  entry and does not persist: the component alerts \<open>URL already shortened.\<close>,
  clears the input and the error.
\<close>

theorem handleShorten_duplicate_unchanged:
  assumes "obj_wf (urlMap s)" and "js_trim (inputUrl s) \<noteq> []" and "isValidUrl (inputUrl s)"
    and "map_of (urlMap s) k = Some e" and "originalUrl e = inputUrl s"
    and "\<not> url_stored (AList.delete k (urlMap s)) (inputUrl s)" and "k \<noteq> []"
  shows "handleShorten s =
           Some (s\<lparr>error := [], alerts := alerts s @ [''URL already shortened.''], inputUrl := []\<rparr>)"
proof -
  have "find_existing (urlMap s) (inputUrl s) = Some k"
    using find_existing_unique [OF assms(1,4,5,6)] .
  with assms(2,3,7) show ?thesis by (simp add: handleShorten_duplicate msg_duplicate_def)
qed

text \<open>
  C7. An input that is empty after \<open>trim\<close> changes nothing but the error message,
  \<open>Please enter a URL.\<close>
\<close>

theorem handleShorten_empty_input:
  assumes "js_trim (inputUrl s) = []"
  shows "handleShorten s = Some (s\<lparr>error := ''Please enter a URL.''\<rparr>)"
  using assms by (simp add: handleShorten_empty msg_empty_def)

text \<open>
  C18. The duplicate check tests the found key for truthiness
  (\<open>if (existingKey)\<close>, line 49). When the entry holding the URL is stored under
  the empty key (a store loaded from text such as
  \<open>{"": {"originalUrl": "https://example.com", "clicks": 0}}\<close>), the empty
  key is falsy and the URL is stored a second time under a fresh key.
\<close>

theorem handleShorten_empty_key_duplicates:
  assumes wf: "obj_wf (urlMap s)" and ne: "js_trim (inputUrl s) \<noteq> []" and valid: "isValidUrl (inputUrl s)"
    and e: "map_of (urlMap s) [] = Some e" "originalUrl e = inputUrl s"
    and only: "\<not> url_stored (AList.delete [] (urlMap s)) (inputUrl s)"
    and free: "map_of (urlMap s) (key_draw (rng s) n) = None"
  shows "\<exists>k s'. handleShorten s = Some s' \<and> k \<noteq> [] \<and>
           map_of (urlMap s') [] = Some e \<and> map_of (urlMap s') k = Some (new_entry (inputUrl s)) \<and>
           originalUrl (new_entry (inputUrl s)) = originalUrl e"
proof -
  obtain j where j: "find_fresh_key (urlMap s) (rng s) = Some (key_draw (rng s) j, sdrop (6 * Suc j) (rng s))"
    using find_fresh_key_returns_first [OF free] by blast
  let ?k = "key_draw (rng s) j"
  have fresh: "map_of (urlMap s) ?k = None" using j by (rule find_fresh_key_fresh_key)
  then have kne: "?k \<noteq> []" using e(1) by auto
  have fe: "find_existing (urlMap s) (inputUrl s) = Some []"
    using find_existing_unique [OF wf e only] .
  let ?s' = "set_url_map (AList.update ?k (new_entry (inputUrl s)) (obj_entries (urlMap s)))
               (s\<lparr>error := [], inputUrl := [], rng := sdrop (6 * Suc j) (rng s)\<rparr>)"
  have "handleShorten s = add_new_entry (s\<lparr>error := []\<rparr>)"
    using fe ne valid by (simp add: handleShorten_def)
  also have "\<dots> = Some ?s'"
    using add_new_entry_Some [of "s\<lparr>error := []\<rparr>"] wf j by simp
  finally have "handleShorten s = Some ?s'" .
  moreover have "map_of (urlMap ?s') [] = Some e"
    using wf e(1) kne by (simp add: update_conv' map_of_obj_entries)
  moreover have "map_of (urlMap ?s') ?k = Some (new_entry (inputUrl s))"
    by (simp add: update_conv')
  ultimately show ?thesis using kne e(2) by (auto simp: new_entry_def)
qed

subsection \<open>Witnesses\<close>

theorem handleShorten_adds_entry_witness:
  "\<exists>k s'. handleShorten ((init_state Map.empty (sconst (1 / 2)))\<lparr>inputUrl := ''https://example.com''\<rparr>) = Some s' \<and>
     k \<notin> fst ` set ([] :: url_map) \<and>
     map_of (urlMap s') = (map_of ([] :: url_map))(k \<mapsto> new_entry ''https://example.com'') \<and>
     length (urlMap s') = Suc (length ([] :: url_map)) \<and> inputUrl s' = [] \<and> error s' = [] \<and>
     storage s' LOCAL_STORAGE_KEY = Some (stringify_store (urlMap s'))"
  using handleShorten_adds_entry [of "(init_state Map.empty (sconst (1 / 2)))\<lparr>inputUrl := ''https://example.com''\<rparr>" 0]
  by (simp add: init_state_def obj_wf_def url_stored_def js_trim_def is_js_ws_def url_defs)

theorem handleShorten_rejects_invalid_witness:
  "handleShorten ((init_state Map.empty (sconst 0))\<lparr>inputUrl := ''hello''\<rparr>) =
   Some ((init_state Map.empty (sconst 0))\<lparr>inputUrl := ''hello'', error := ''Invalid URL format.''\<rparr>)"
  using handleShorten_rejects_invalid [of "(init_state Map.empty (sconst 0))\<lparr>inputUrl := ''hello''\<rparr>"]
  by (simp add: init_state_def js_trim_def is_js_ws_def url_defs)

theorem handleShorten_empty_input_witness:
  "handleShorten ((init_state Map.empty (sconst 0))\<lparr>inputUrl := '' ''\<rparr>) =
   Some ((init_state Map.empty (sconst 0))\<lparr>inputUrl := '' '', error := ''Please enter a URL.''\<rparr>)"
  using handleShorten_empty_input [of "(init_state Map.empty (sconst 0))\<lparr>inputUrl := '' ''\<rparr>"]
  by (simp add: init_state_def js_trim_def is_js_ws_def)

theorem handleShorten_duplicate_unchanged_witness:
  "handleShorten ((init_state Map.empty (sconst 0))\<lparr>inputUrl := ''https://example.com'',
      urlMap := [(''abc123'', new_entry ''https://example.com'')]\<rparr>) =
   Some ((init_state Map.empty (sconst 0))\<lparr>inputUrl := ''https://example.com'',
      urlMap := [(''abc123'', new_entry ''https://example.com'')]\<rparr>
      \<lparr>error := [], alerts := [] @ [''URL already shortened.''], inputUrl := []\<rparr>)"
  using handleShorten_duplicate_unchanged [of "(init_state Map.empty (sconst 0))\<lparr>inputUrl := ''https://example.com'',
      urlMap := [(''abc123'', new_entry ''https://example.com'')]\<rparr>" "''abc123''" "new_entry ''https://example.com''"]
  by (simp add: init_state_def obj_wf_def url_stored_def new_entry_def js_trim_def is_js_ws_def url_defs)

text \<open>With every \<open>Math.random()\<close> returning \<open>0.5\<close> the key is \<open>FFFFFF\<close>.\<close>

lemma key_draw_half: "key_draw (sconst (1 / 2)) 0 = ''FFFFFF''"
  by (simp add: key_draw_def generateShortKey_def numeral_eq_Suc random_char_def js_char_at_def key_chars_def)

theorem handleShorten_empty_key_duplicates_witness:
  "\<exists>k s'. handleShorten ((init_state Map.empty (sconst (1 / 2)))\<lparr>inputUrl := ''https://example.com'',
        urlMap := [([], new_entry ''https://example.com'')]\<rparr>) = Some s' \<and> k \<noteq> [] \<and>
     map_of (urlMap s') [] = Some (new_entry ''https://example.com'') \<and>
     map_of (urlMap s') k = Some (new_entry ''https://example.com'') \<and>
     originalUrl (new_entry ''https://example.com'') = originalUrl (new_entry ''https://example.com'')"
  using handleShorten_empty_key_duplicates [of "(init_state Map.empty (sconst (1 / 2)))\<lparr>inputUrl := ''https://example.com'',
        urlMap := [([], new_entry ''https://example.com'')]\<rparr>" "new_entry ''https://example.com''" 0]
  by (simp add: key_draw_half new_entry_def init_state_def obj_wf_def js_trim_def is_js_ws_def url_defs url_stored_def)

end
