(* ===== verification/Handlers.thy ===== *)
theory Handlers
  imports Store
begin

text \<open>
  \<open>handleRedirect\<close> (\<open>src/src/UrlShortener.jsx\<close>, lines 68--75) and
  \<open>handleDelete\<close> (lines 77--81). The redirect reads \<open>urlMap[key]\<close>
  (\<open>obj_get\<close>, which falls back to \<open>Object.prototype\<close>); when that is
  \<open>undefined\<close> it returns without any effect. Otherwise it queues the functional
  update \<open>prev => ({...prev, [key]: updatedEntry})\<close>, whose entry is the read one
  with \<open>clicks + 1\<close> in double arithmetic (\<open>js_incr\<close>), and calls
  \<open>window.open(entry.originalUrl, '_blank')\<close>. Handlers run one event at a time
  and React renders between discrete events, so \<open>prev\<close> is the rendered
  \<open>urlMap\<close>. For a key that is only a property of \<open>Object.prototype\<close>
  (\<open>toString\<close>, \<open>__proto__\<close>, ...) the read value is a function or the
  prototype, truthy: the handler stores \<open>{clicks: NaN}\<close> under the key and opens
  \<open>undefined\<close>. The record \<open>entry\<close> cannot hold that value, so the model
  returns \<open>None\<close> there: the event leaves the modelled states, as a load of an
  unsupported shape does. The rendered links only carry stored keys
  (\<open>View.dispatch\<close>), which never reach that branch.
  \<open>handleDelete\<close> copies the object, deletes the key and always calls
  \<open>setUrlMap\<close>, so it persists even when the key was absent.
\<close>

definition incr_clicks :: "entry \<Rightarrow> entry" where
  "incr_clicks e = e\<lparr>clicks := js_incr (clicks e)\<rparr>"

definition handleRedirect :: "js_string \<Rightarrow> app \<Rightarrow> app option" where
  "handleRedirect key s =
     (case obj_get (urlMap s) key of
        Undefined \<Rightarrow> Some s
      | OwnProp entry \<Rightarrow>
          Some ((set_url_map (AList.update key (incr_clicks entry) (obj_spread (urlMap s))) s)
                  \<lparr>opened := opened s @ [originalUrl entry]\<rparr>)
      | Inherited \<Rightarrow> None)"

definition handleDelete :: "js_string \<Rightarrow> app \<Rightarrow> app" where
  "handleDelete key s = set_url_map (AList.delete key (obj_spread (urlMap s))) s"

text \<open>An entry as \<open>handleShorten\<close> creates it, used in the examples below.\<close>

definition new_entry_demo :: entry where
  "new_entry_demo = \<lparr>originalUrl = ''https://example.com'', clicks = 0\<rparr>"

definition demo_state :: app where
  "demo_state = (init_state Map.empty (sconst 0))\<lparr>urlMap := [(''abc123'', new_entry_demo)]\<rparr>"

subsection \<open>Unfolding\<close>

lemma handleRedirect_present [handler_simps]:
  "obj_wf (urlMap s) \<Longrightarrow> map_of (urlMap s) key = Some e \<Longrightarrow>
   handleRedirect key s =
     Some ((set_url_map (AList.update key (incr_clicks e) (obj_entries (urlMap s))) s)
             \<lparr>opened := opened s @ [originalUrl e]\<rparr>)"
  by (simp add: handleRedirect_def obj_get_own obj_spread_entries)


lemma handleRedirect_inherited:
  "map_of (urlMap s) key = None \<Longrightarrow> key \<in> set object_prototype_keys \<Longrightarrow> handleRedirect key s = None"
  by (simp add: handleRedirect_def obj_get_inherited)

lemma handleRedirect_Some:
  "handleRedirect key s = Some t \<Longrightarrow> map_of (urlMap s) key = None \<Longrightarrow> t = s"
  by (auto simp: handleRedirect_def obj_get_def split: if_splits)

lemma handleDelete_unfold [handler_simps]:
  "obj_wf (urlMap s) \<Longrightarrow> handleDelete key s = set_url_map (AList.delete key (obj_entries (urlMap s))) s"
  by (simp add: handleDelete_def obj_spread_entries)

lemma clicks_incr_clicks [simp]: "clicks (incr_clicks e) = js_incr (clicks e)"
  by (simp add: incr_clicks_def)

lemma originalUrl_incr_clicks [simp]: "originalUrl (incr_clicks e) = originalUrl e"
  by (simp add: incr_clicks_def)

subsection \<open>Properties\<close>

text \<open>
  C3. Opening a stored key increments exactly that entry's click counter by one
  (below \<open>2^53\<close>, where doubles are exact), leaves every other entry as it was,
  opens the original URL in a new browsing context and persists the store.
\<close>

theorem handleRedirect_increments:
  assumes wf: "obj_wf (urlMap s)" and e: "map_of (urlMap s) k = Some e" and small: "clicks e < 2 ^ 53"
  shows "\<exists>t. handleRedirect k s = Some t \<and>
           map_of (urlMap t) k = Some (e\<lparr>clicks := clicks e + 1\<rparr>) \<and>
           (\<forall>k'. k' \<noteq> k \<longrightarrow> map_of (urlMap t) k' = map_of (urlMap s) k') \<and>
           opened t = opened s @ [originalUrl e] \<and>
           storage t LOCAL_STORAGE_KEY = Some (stringify_store (urlMap t))"
  using wf e small
  by (simp add: handleRedirect_present update_conv' map_of_obj_entries incr_clicks_def js_incr_exact)


text \<open>
  C4. Deleting a key that has no entry leaves the entries and their enumeration
  order unchanged; the store is written again, with the text it already had.
\<close>

theorem handleDelete_absent:
  assumes wf: "obj_wf (urlMap s)" and absent: "k \<notin> fst ` set (urlMap s)"
    and saved: "storage s LOCAL_STORAGE_KEY = Some (stringify_store (urlMap s))"
  shows "map_of (urlMap (handleDelete k s)) = map_of (urlMap s) \<and>
         obj_keys (urlMap (handleDelete k s)) = obj_keys (urlMap s) \<and>
         storage (handleDelete k s) = storage s"
proof -
  have "k \<notin> fst ` set (obj_entries (urlMap s))" using absent by simp
  then have "AList.delete k (obj_entries (urlMap s)) = obj_entries (urlMap s)" by simp
  then show ?thesis
    using wf saved by (auto simp: handleDelete_unfold map_of_obj_entries obj_keys_obj_entries)
qed

text \<open>
  C9. Deleting a key removes exactly its entry, keeps the enumeration order of the
  others and persists the store.
\<close>

theorem handleDelete_removes:
  assumes wf: "obj_wf (urlMap s)"
  shows "map_of (urlMap (handleDelete k s)) = (map_of (urlMap s))(k := None) \<and>
         obj_keys (urlMap (handleDelete k s)) = removeAll k (obj_keys (urlMap s)) \<and>
         storage (handleDelete k s) LOCAL_STORAGE_KEY = Some (stringify_store (urlMap (handleDelete k s)))"
  using wf by (simp add: handleDelete_unfold delete_conv' map_of_obj_entries obj_keys_delete
      obj_keys_obj_entries)

text \<open>
  C33. At \<open>2^53\<close> clicks the counter stops: \<open>entry.clicks + 1\<close> rounds back to
  \<open>2^53\<close> in double arithmetic, so opening the link still opens the URL and
  saves the store but the stored entry is unchanged, where the specification says
  the count becomes \<open>c + 1\<close>.
\<close>

theorem handleRedirect_saturates:
  assumes wf: "obj_wf (urlMap s)" and e: "map_of (urlMap s) k = Some e" and top: "clicks e = 2 ^ 53"
  shows "\<exists>t. handleRedirect k s = Some t \<and> map_of (urlMap t) k = Some e \<and>
           opened t = opened s @ [originalUrl e] \<and>
           storage t LOCAL_STORAGE_KEY = Some (stringify_store (urlMap t))"
proof -
  have "incr_clicks e = e" using top js_incr_saturates by (simp add: incr_clicks_def)
  then show ?thesis using wf e by (simp add: handleRedirect_present update_conv' map_of_obj_entries)
qed

subsection \<open>Witnesses\<close>

theorem handleRedirect_increments_witness:
  "\<exists>t. handleRedirect ''abc123'' demo_state = Some t \<and>
       map_of (urlMap t) ''abc123'' = Some (new_entry_demo\<lparr>clicks := clicks new_entry_demo + 1\<rparr>) \<and>
       map_of (urlMap t) ''xyz789'' = map_of [(''abc123'', new_entry_demo)] ''xyz789'' \<and>
       opened t = [originalUrl new_entry_demo] \<and>
       storage t LOCAL_STORAGE_KEY = Some (stringify_store (urlMap t))"
proof -
  have "\<exists>t. handleRedirect ''abc123'' demo_state = Some t \<and>
           map_of (urlMap t) ''abc123'' = Some (new_entry_demo\<lparr>clicks := clicks new_entry_demo + 1\<rparr>) \<and>
           (\<forall>k'. k' \<noteq> ''abc123'' \<longrightarrow> map_of (urlMap t) k' = map_of (urlMap demo_state) k') \<and>
           opened t = opened demo_state @ [originalUrl new_entry_demo] \<and>
           storage t LOCAL_STORAGE_KEY = Some (stringify_store (urlMap t))"
    by (rule handleRedirect_increments) (simp_all add: demo_state_def init_state_def obj_wf_def new_entry_demo_def)
  then show ?thesis by (auto simp: demo_state_def init_state_def)
qed


theorem handleDelete_absent_witness:
  "map_of (urlMap (handleDelete ''zzz999'' (persist demo_state))) = map_of [(''abc123'', new_entry_demo)] \<and>
   obj_keys (urlMap (handleDelete ''zzz999'' (persist demo_state))) = obj_keys [(''abc123'', new_entry_demo)] \<and>
   storage (handleDelete ''zzz999'' (persist demo_state)) = storage (persist demo_state)"
  using handleDelete_absent [of "persist demo_state" "''zzz999''"]
  by (simp add: demo_state_def init_state_def persist_def obj_wf_def)

theorem handleDelete_removes_witness:
  "map_of (urlMap (handleDelete ''abc123'' demo_state)) = (map_of [(''abc123'', new_entry_demo)])(''abc123'' := None) \<and>
   obj_keys (urlMap (handleDelete ''abc123'' demo_state)) = removeAll ''abc123'' (obj_keys [(''abc123'', new_entry_demo)]) \<and>
   storage (handleDelete ''abc123'' demo_state) LOCAL_STORAGE_KEY
     = Some (stringify_store (urlMap (handleDelete ''abc123'' demo_state)))"
  using handleDelete_removes [of demo_state "''abc123''"]
  by (simp add: demo_state_def init_state_def obj_wf_def obj_keys_def own_property_keys_def)

theorem handleRedirect_saturates_witness:
  "\<exists>t. handleRedirect ''abc123'' ((init_state Map.empty (sconst 0))
         \<lparr>urlMap := [(''abc123'', \<lparr>originalUrl = ''https://a.com'', clicks = 2 ^ 53\<rparr>)]\<rparr>) = Some t \<and>
       map_of (urlMap t) ''abc123'' = Some \<lparr>originalUrl = ''https://a.com'', clicks = 2 ^ 53\<rparr> \<and>
       opened t = opened ((init_state Map.empty (sconst 0))
         \<lparr>urlMap := [(''abc123'', \<lparr>originalUrl = ''https://a.com'', clicks = 2 ^ 53\<rparr>)]\<rparr>) @
         [originalUrl \<lparr>originalUrl = ''https://a.com'', clicks = 2 ^ 53\<rparr>] \<and>
       storage t LOCAL_STORAGE_KEY = Some (stringify_store (urlMap t))"
  by (rule handleRedirect_saturates) (simp_all add: init_state_def obj_wf_def)

end
