(* ===== verification/App.thy ===== *)
theory App
  imports Shortener Handlers
begin

text \<open>
  The component as a whole, driven by the events its JSX wires up
  (\<open>src/src/UrlShortener.jsx\<close>, lines 85--157): typing in the input
  (\<open>onChange\<close>, line 94), the Shorten button (line 98), a short link (lines
  125--128) and a Delete button (line 137). Each event runs its handler, the
  re-render and the save effect (\<open>step\<close>). The reachable states start from a
  browser with nothing saved, take any events, and may reload the page, which
  mounts the component again over the same storage with fresh randomness.
  The invariant \<open>app_inv\<close> holds in every reachable state: keys unique, the
  saved text is the current store, click counters at most \<open>2^53\<close>, every URL
  stored once, every key six characters of the alphabet, and the future
  \<open>Math.random\<close> results in \<open>[0, 1)\<close>.
\<close>

datatype event = Type js_string | Shorten | OpenLink js_string | Delete js_string

definition step :: "event \<Rightarrow> app \<Rightarrow> app option" where
  "step ev s =
     (case ev of
        Type v \<Rightarrow> Some (s\<lparr>inputUrl := v\<rparr>)
      | Shorten \<Rightarrow> handleShorten s
      | OpenLink k \<Rightarrow> handleRedirect k s
      | Delete k \<Rightarrow> Some (handleDelete k s))"

definition rng_ok :: "real stream \<Rightarrow> bool" where
  "rng_ok rs \<longleftrightarrow> (\<forall>n. math_random_ok (rs !! n))"

definition urls_distinct :: "url_map \<Rightarrow> bool" where
  "urls_distinct m \<longleftrightarrow> distinct (map (\<lambda>e. originalUrl (snd e)) m)"

definition keys_ok :: "url_map \<Rightarrow> bool" where
  "keys_ok m \<longleftrightarrow> list_all (\<lambda>e. length (fst e) = 6 \<and> list_all is_key_char (fst e)) m"

definition app_inv :: "app \<Rightarrow> bool" where
  "app_inv s \<longleftrightarrow>
     obj_wf (urlMap s) \<and> storage s LOCAL_STORAGE_KEY = Some (stringify_store (urlMap s)) \<and>
     clicks_bounded (urlMap s) \<and> urls_distinct (urlMap s) \<and> keys_ok (urlMap s) \<and> rng_ok (rng s)"

inductive reach :: "app \<Rightarrow> bool" where
  fresh: "rng_ok rs \<Longrightarrow> st LOCAL_STORAGE_KEY = None \<Longrightarrow> mount (init_state st rs) = Inr s \<Longrightarrow> reach s"
| event: "reach s \<Longrightarrow> step ev s = Some s' \<Longrightarrow> reach s'"
| reload: "reach s \<Longrightarrow> rng_ok rs \<Longrightarrow> mount (init_state (storage s) rs) = Inr s' \<Longrightarrow> reach s'"

text \<open>
  A sequence of events, each run to completion; \<open>None\<close> if a key search never
  ends, or if a link is opened under the name of an \<open>Object.prototype\<close> property
  (a state outside the model, see \<open>handleRedirect\<close>).
\<close>

fun run :: "event list \<Rightarrow> app \<Rightarrow> app option" where
  "run [] s = Some s"
| "run (ev # evs) s = (case step ev s of None \<Rightarrow> None | Some s' \<Rightarrow> run evs s')"

text \<open>The component just mounted in a browser with nothing saved.\<close>

definition fresh_app :: "real stream \<Rightarrow> app" where
  "fresh_app rs = persist (init_state Map.empty rs)"

subsection \<open>Randomness\<close>

lemma rng_ok_sdrop: "rng_ok rs \<Longrightarrow> rng_ok (sdrop n rs)"
  by (simp add: rng_ok_def sdrop_snth)

lemma rng_ok_stl: "rng_ok rs \<Longrightarrow> rng_ok (stl rs)"
  unfolding rng_ok_def by (metis snth.simps(2))

lemma rng_ok_stake: "rng_ok rs \<Longrightarrow> list_all math_random_ok (stake n rs)"
proof (induction n arbitrary: rs)
  case (Suc n)
  then have "math_random_ok (shd rs)" using snth.simps(1) unfolding rng_ok_def by metis
  with Suc rng_ok_stl show ?case by simp
qed simp

lemma key_draw_ok:
  assumes "rng_ok rs"
  shows "length (key_draw rs n) = 6 \<and> list_all is_key_char (key_draw rs n)"
proof -
  have "list_all math_random_ok (stake 6 (sdrop (6 * n) rs))"
    using assms by (intro rng_ok_stake rng_ok_sdrop)
  from concat_random_chars [OF this] show ?thesis
    by (simp add: key_draw_def generateShortKey_def)
qed

lemma find_fresh_key_ok:
  assumes "rng_ok rs" and "find_fresh_key m rs = Some (k, rs')"
  shows "length k = 6 \<and> list_all is_key_char k \<and> map_of m k = None \<and> rng_ok rs'"
  using find_fresh_key_Some_draw [OF assms(2)] key_draw_ok [OF assms(1)] rng_ok_sdrop [OF assms(1)]
  by auto

lemma rng_ok_shift:
  assumes "list_all math_random_ok xs" and "math_random_ok r"
  shows "rng_ok (xs @- sconst r)"
  unfolding rng_ok_def
proof
  fix n show "math_random_ok ((xs @- sconst r) !! n)"
    using assms by (cases "n < length xs") (simp_all add: shift_snth list_all_length)
qed

lemma sdrop_length_shift: "sdrop (length xs) (xs @- s) = s"
  by (induction xs) auto

lemma key_draw_chars:
  assumes "list_all is_key_char k" and "length k = 6"
  shows "key_draw (map char_draw k @- rs) 0 = k"
proof -
  have "stake 6 (map char_draw k @- rs) = map char_draw k" using assms(2) by (simp add: stake_shift)
  then show ?thesis using concat_char_draws [OF assms(1)] by (simp add: key_draw_def generateShortKey_def)
qed

subsection \<open>The invariant on the store\<close>

lemma app_inv_same_store:
  "app_inv s \<Longrightarrow> urlMap t = urlMap s \<Longrightarrow> storage t = storage s \<Longrightarrow> rng t = rng s \<Longrightarrow> app_inv t"
  by (simp add: app_inv_def)

lemma app_inv_set_url_map:
  "obj_wf m \<Longrightarrow> clicks_bounded m \<Longrightarrow> urls_distinct m \<Longrightarrow> keys_ok m \<Longrightarrow> rng_ok (rng s) \<Longrightarrow>
   app_inv (set_url_map m s)"
  by (simp add: app_inv_def)

lemma urls_distinct_entries [simp]: "urls_distinct (obj_entries m) = urls_distinct m"
proof -
  have "mset (map (\<lambda>e. originalUrl (snd e)) (obj_entries m)) = mset (map (\<lambda>e. originalUrl (snd e)) m)"
    by simp
  then show ?thesis unfolding urls_distinct_def by (rule mset_eq_imp_distinct_iff)
qed

lemma keys_ok_entries [simp]: "keys_ok (obj_entries m) = keys_ok m"
  by (simp add: keys_ok_def)

lemma map_snd_update_existing:
  "map_of xs k = Some e \<Longrightarrow> f e' = f e \<Longrightarrow> map (\<lambda>p. f (snd p)) (AList.update k e' xs) = map (\<lambda>p. f (snd p)) xs"
  by (induction xs) auto

lemma list_all_update: "list_all P xs \<Longrightarrow> P (k, v) \<Longrightarrow> list_all P (AList.update k v xs)"
  by (induction xs) auto

lemma list_all_delete: "list_all P xs \<Longrightarrow> list_all P (AList.delete k xs)"
  by (simp add: AList.delete_eq list_all_iff)

lemma urls_distinct_delete: "urls_distinct m \<Longrightarrow> urls_distinct (AList.delete k m)"
  by (simp add: urls_distinct_def AList.delete_eq distinct_map_filter)

lemma keys_of_stored: "keys_ok m \<Longrightarrow> map_of m k = Some e \<Longrightarrow> length k = 6"
  using map_of_SomeD [of m k e] by (fastforce simp: keys_ok_def list_all_iff)

subsection \<open>Each event keeps the invariant\<close>

text \<open>The two outcomes of \<open>handleShorten\<close>: the store is untouched, or a new entry is added.\<close>

lemma handleShorten_outcome:
  assumes inv: "app_inv s" and sh: "handleShorten s = Some t"
  shows "(urlMap t = urlMap s \<and> storage t = storage s \<and> rng t = rng s) \<or>
         (js_trim (inputUrl s) \<noteq> [] \<and> isValidUrl (inputUrl s) \<and> \<not> url_stored (urlMap s) (inputUrl s) \<and>
          add_new_entry (s\<lparr>error := []\<rparr>) = Some t)"
proof -
  have wf: "obj_wf (urlMap s)" and ko: "keys_ok (urlMap s)" using inv by (simp_all add: app_inv_def)
  consider (empty) "js_trim (inputUrl s) = []"
    | (invalid) "js_trim (inputUrl s) \<noteq> []" "\<not> isValidUrl (inputUrl s)"
    | (dup) k where "js_trim (inputUrl s) \<noteq> []" "isValidUrl (inputUrl s)"
        "find_existing (urlMap s) (inputUrl s) = Some k"
    | (new) "js_trim (inputUrl s) \<noteq> []" "isValidUrl (inputUrl s)"
        "find_existing (urlMap s) (inputUrl s) = None"
    by (cases "find_existing (urlMap s) (inputUrl s)") auto
  then show ?thesis
  proof cases
    case empty
    then show ?thesis using sh by (auto simp: handleShorten_empty)
  next
    case invalid
    then show ?thesis using sh by (auto simp: handleShorten_invalid)
  next
    case (dup k)
    obtain e where "map_of (urlMap s) k = Some e" using find_existing_Some [OF dup(3)] by blast
    then have "k \<noteq> []" using keys_of_stored [OF ko] by fastforce
    then show ?thesis using sh dup by (auto simp: handleShorten_duplicate)
  next
    case new
    then show ?thesis using sh find_existing_None_iff [OF wf] by (simp add: handleShorten_fresh)
  qed
qed

text \<open>What \<open>add_new_entry\<close> does from a state satisfying the invariant.\<close>

lemma add_new_entry_shape:
  assumes inv: "app_inv s" and add: "add_new_entry s = Some t"
  obtains k rs' where "length k = 6" "list_all is_key_char k" "map_of (urlMap s) k = None" "rng_ok rs'"
    "t = set_url_map (obj_entries (urlMap s) @ [(k, new_entry (inputUrl s))]) (s\<lparr>inputUrl := [], rng := rs'\<rparr>)"
proof -
  let ?m = "urlMap s" and ?u = "inputUrl s"
  obtain k rs' where ff: "find_fresh_key ?m (rng s) = Some (k, rs')"
    using add by (cases "find_fresh_key ?m (rng s)") (auto simp: add_new_entry_def)
  have wf: "obj_wf ?m" and rs: "rng_ok (rng s)" using inv by (simp_all add: app_inv_def)
  have k: "length k = 6 \<and> list_all is_key_char k \<and> map_of ?m k = None \<and> rng_ok rs'"
    using find_fresh_key_ok [OF rs ff] .
  then have "k \<notin> fst ` set (obj_entries ?m)" by (simp add: map_of_eq_None_iff)
  then have upd: "AList.update k (new_entry ?u) (obj_entries ?m) = obj_entries ?m @ [(k, new_entry ?u)]"
    by (rule update_append_new)
  have "t = set_url_map (obj_entries ?m @ [(k, new_entry ?u)]) (s\<lparr>inputUrl := [], rng := rs'\<rparr>)"
    using add add_new_entry_Some [OF wf ff] upd by simp
  with k show ?thesis using that by blast
qed

lemma add_new_entry_inv:
  assumes inv: "app_inv s" and new: "\<not> url_stored (urlMap s) (inputUrl s)"
    and add: "add_new_entry s = Some t"
  shows "app_inv t"
proof -
  let ?m = "urlMap s" and ?u = "inputUrl s"
  obtain k rs' where k: "length k = 6" "list_all is_key_char k" "map_of ?m k = None" "rng_ok rs'"
    and t: "t = set_url_map (obj_entries ?m @ [(k, new_entry ?u)]) (s\<lparr>inputUrl := [], rng := rs'\<rparr>)"
    using add_new_entry_shape [OF inv add] .
  have wf: "obj_wf ?m" using inv by (simp add: app_inv_def)
  have "k \<notin> fst ` set (obj_entries ?m)" using k(3) by (simp add: map_of_eq_None_iff)
  then have "obj_wf (obj_entries ?m @ [(k, new_entry ?u)])"
    using wf obj_wf_entries [of ?m] by (simp add: obj_wf_def)
  moreover have "clicks_bounded (obj_entries ?m @ [(k, new_entry ?u)])"
  proof -
    have "clicks_bounded (obj_entries ?m)" using inv by (simp add: app_inv_def)
    then show ?thesis by (simp add: clicks_bounded_def new_entry_def)
  qed
  moreover have "urls_distinct (obj_entries ?m @ [(k, new_entry ?u)])"
  proof -
    have "urls_distinct (obj_entries ?m)" using inv by (simp add: app_inv_def)
    with new show ?thesis by (auto simp: urls_distinct_def url_stored_def list_ex_iff new_entry_def)
  qed
  moreover have "keys_ok (obj_entries ?m @ [(k, new_entry ?u)])"
    using inv k by (simp add: app_inv_def keys_ok_def)
  ultimately show ?thesis
    using k by (simp add: t app_inv_set_url_map)
qed

lemma handleShorten_inv:
  assumes inv: "app_inv s" and sh: "handleShorten s = Some t"
  shows "app_inv t"
  using handleShorten_outcome [OF inv sh]
proof
  assume "urlMap t = urlMap s \<and> storage t = storage s \<and> rng t = rng s"
  then show ?thesis using app_inv_same_store [OF inv] by blast
next
  assume new: "js_trim (inputUrl s) \<noteq> [] \<and> isValidUrl (inputUrl s) \<and> \<not> url_stored (urlMap s) (inputUrl s) \<and>
               add_new_entry (s\<lparr>error := []\<rparr>) = Some t"
  have "app_inv (s\<lparr>error := []\<rparr>)" by (rule app_inv_same_store [OF inv]) simp_all
  with new show ?thesis using add_new_entry_inv by simp
qed

lemma handleRedirect_inv:
  assumes inv: "app_inv s" and r: "handleRedirect k s = Some t"
  shows "app_inv t"
proof (cases "map_of (urlMap s) k")
  case None
  then show ?thesis using inv r handleRedirect_Some by blast
next
  case (Some e)
  let ?m = "urlMap s"
  let ?m' = "AList.update k (incr_clicks e) (obj_entries ?m)"
  have wf: "obj_wf ?m" and cb: "clicks_bounded ?m" and ko: "keys_ok ?m" and ud: "urls_distinct ?m"
    using inv by (simp_all add: app_inv_def)
  have e: "(k, e) \<in> set ?m" using Some by (rule map_of_SomeD)
  have "clicks_bounded ?m'"
  proof -
    have "clicks e \<le> 2 ^ 53" using cb e by (auto simp: clicks_bounded_def list_all_iff)
    then have "js_incr (clicks e) \<le> 2 ^ 53" by (rule js_incr_le)
    then show ?thesis using cb unfolding clicks_bounded_def
      by (intro list_all_update) simp_all
  qed
  moreover have "keys_ok ?m'"
    using ko e unfolding keys_ok_def by (intro list_all_update) (auto simp: list_all_iff)
  moreover have "urls_distinct ?m'"
    using urls_distinct_entries [of ?m] ud map_snd_update_existing [of "obj_entries ?m" k e originalUrl "incr_clicks e"] Some wf
    by (simp add: urls_distinct_def map_of_obj_entries)
  moreover have "obj_wf ?m'" using wf by (simp add: obj_wf_update)
  ultimately have "app_inv (set_url_map ?m' s)"
    using inv by (simp add: app_inv_set_url_map app_inv_def)
  then show ?thesis
    using Some wf r by (auto simp: handleRedirect_present app_inv_def)
qed

lemma handleDelete_inv:
  assumes inv: "app_inv s"
  shows "app_inv (handleDelete k s)"
proof -
  let ?m = "urlMap s"
  have wf: "obj_wf ?m" using inv by (simp add: app_inv_def)
  have "app_inv (set_url_map (AList.delete k (obj_entries ?m)) s)"
    using inv by (intro app_inv_set_url_map)
      (simp_all add: app_inv_def obj_wf_delete clicks_bounded_def keys_ok_def list_all_delete urls_distinct_delete)
  then show ?thesis using wf by (simp add: handleDelete_unfold)
qed

lemma step_inv: "app_inv s \<Longrightarrow> step ev s = Some t \<Longrightarrow> app_inv t"
proof (cases ev)
  case (Type v)
  then show "app_inv s \<Longrightarrow> step ev s = Some t \<Longrightarrow> app_inv t"
    by (auto simp: step_def intro: app_inv_same_store)
next
  case (OpenLink k)
  then show "app_inv s \<Longrightarrow> step ev s = Some t \<Longrightarrow> app_inv t"
    using handleRedirect_inv [of s k t] by (simp add: step_def)
qed (auto simp: step_def handleShorten_inv handleDelete_inv)

lemma mount_fresh_inv:
  "rng_ok rs \<Longrightarrow> st LOCAL_STORAGE_KEY = None \<Longrightarrow> mount (init_state st rs) = Inr s \<Longrightarrow> app_inv s"
  by (auto simp: mount_def init_state_def persist_def app_inv_def obj_wf_def clicks_bounded_def
      urls_distinct_def keys_ok_def)

lemma mount_reload_inv:
  assumes inv: "app_inv s" and rs: "rng_ok rs" and m: "mount (init_state (storage s) rs) = Inr t"
  shows "app_inv t"
proof -
  have "t = set_url_map (obj_entries (urlMap s)) (persist (init_state (storage s) rs))"
    using m mount_saved [of "urlMap s" "init_state (storage s) rs"] inv
    by (simp add: app_inv_def init_state_def)
  then show ?thesis
    using inv rs by (simp add: app_inv_set_url_map app_inv_def persist_def init_state_def)
qed

lemma reach_inv: "reach s \<Longrightarrow> app_inv s"
  by (induction rule: reach.induct) (auto intro: mount_fresh_inv step_inv mount_reload_inv)

lemma reach_run: "reach s \<Longrightarrow> run evs s = Some t \<Longrightarrow> reach t"
proof (induction evs arbitrary: s)
  case (Cons ev evs)
  then show ?case by (auto split: option.splits intro: reach.event)
qed simp

lemma run_append: "run (xs @ ys) s = (case run xs s of None \<Rightarrow> None | Some t \<Rightarrow> run ys t)"
  by (induction xs arbitrary: s) (simp_all split: option.splits)

lemma rng_ok_sconst: "math_random_ok r \<Longrightarrow> rng_ok (sconst r)"
  by (simp add: rng_ok_def)

lemma reach_fresh_app: "rng_ok rs \<Longrightarrow> reach (fresh_app rs)"
  by (rule reach.fresh [of rs Map.empty]) (simp_all add: mount_def init_state_def fresh_app_def)

lemma valid_example: "isValidUrl ''https://example.com''"
  by (simp add: url_defs)

lemma trim_example: "js_trim ''https://example.com'' \<noteq> []"
  by (simp add: js_trim_def is_js_ws_def)

text \<open>Shortening a valid URL right after a fresh mount stores it under the first draw.\<close>

lemma shorten_fresh_app:
  assumes "js_trim u \<noteq> []" and "isValidUrl u"
  shows "run [Type u, Shorten] (fresh_app rs) =
           Some (set_url_map [(key_draw rs 0, new_entry u)] ((fresh_app rs)\<lparr>rng := sdrop 6 rs\<rparr>))"
proof -
  have ne: "find_existing [] u = None"
    by (simp add: find_existing_def obj_keys_def own_property_keys_def)
  have ff: "find_fresh_key [] rs = Some (key_draw rs 0, sdrop 6 rs)"
    by (simp add: find_fresh_key_fresh)
  show ?thesis
    using ne ff assms
    by (simp add: step_def handleShorten_fresh add_new_entry_Some fresh_app_def init_state_def persist_def
        obj_wf_def obj_entries_def)
qed

lemma reach_example:
  "reach (set_url_map [(key_draw (sconst (1 / 2)) 0, new_entry ''https://example.com'')]
           ((fresh_app (sconst (1 / 2)))\<lparr>rng := sdrop 6 (sconst (1 / 2))\<rparr>))"
proof -
  have rs: "rng_ok (sconst (1 / 2 :: real))" by (simp add: rng_ok_def math_random_ok_def)
  show ?thesis using reach_run [OF reach_fresh_app [OF rs] shorten_fresh_app [OF trim_example valid_example]] .
qed

subsection \<open>Properties of reachable states\<close>

text \<open>
  C15. In every reachable state the saved text is the current store, and reloading
  the page then restores it: the same entries under the same keys, in the same
  enumeration order.
\<close>

theorem reachable_store_saved:
  assumes "reach s"
  shows "storage s LOCAL_STORAGE_KEY = Some (stringify_store (urlMap s)) \<and>
         (\<exists>t. mount (init_state (storage s) rs) = Inr t \<and>
              map_of (urlMap t) = map_of (urlMap s) \<and> obj_keys (urlMap t) = obj_keys (urlMap s))"
proof -
  have inv: "app_inv s" using assms by (rule reach_inv)
  then have "mount (init_state (storage s) rs) =
               Inr (set_url_map (obj_entries (urlMap s)) (persist (init_state (storage s) rs)))"
    by (intro mount_saved) (simp_all add: app_inv_def init_state_def)
  with inv show ?thesis by (simp add: app_inv_def map_of_obj_entries obj_keys_obj_entries)
qed

text \<open>
  C16. In every reachable state the keys are unique, every original URL is stored
  under one key only, and every click counter is at most \<open>2^53\<close>.
\<close>

theorem reachable_urls_unique:
  assumes "reach s"
  shows "distinct (map fst (urlMap s)) \<and> distinct (map (\<lambda>e. originalUrl (snd e)) (urlMap s)) \<and>
         list_all (\<lambda>e. clicks (snd e) \<le> 2 ^ 53) (urlMap s)"
  using reach_inv [OF assms] by (simp add: app_inv_def obj_wf_def urls_distinct_def clicks_bounded_def)

text \<open>
  C17. In every reachable state every short key has six characters, all from the
  62-character alphabet; in particular no key is empty.
\<close>

theorem reachable_keys_format:
  assumes "reach s"
  shows "list_all (\<lambda>k. length k = 6 \<and> list_all is_key_char k) (obj_keys (urlMap s))"
  using reach_inv [OF assms] by (simp add: app_inv_def keys_ok_def obj_keys_entries list_all_iff)

lemma run_deletes:
  "obj_wf (urlMap s) \<Longrightarrow>
   \<exists>t. run (map Delete ks) s = Some t \<and> obj_wf (urlMap t) \<and>
        fst ` set (urlMap t) = fst ` set (urlMap s) - set ks \<and>
        (ks \<noteq> [] \<longrightarrow> storage t LOCAL_STORAGE_KEY = Some (stringify_store (urlMap t)))"
proof (induction ks arbitrary: s)
  case Nil
  then show ?case by simp
next
  case (Cons k ks)
  let ?s' = "handleDelete k s"
  have u: "urlMap ?s' = AList.delete k (obj_entries (urlMap s))"
    using Cons.prems by (simp add: handleDelete_unfold)
  have wf': "obj_wf (urlMap ?s')" using Cons.prems u by (simp add: obj_wf_delete)
  obtain t where t: "run (map Delete ks) ?s' = Some t" "obj_wf (urlMap t)"
      "fst ` set (urlMap t) = fst ` set (urlMap ?s') - set ks"
      "ks \<noteq> [] \<longrightarrow> storage t LOCAL_STORAGE_KEY = Some (stringify_store (urlMap t))"
    using Cons.IH [OF wf'] by blast
  have "fst ` set (urlMap ?s') = fst ` set (urlMap s) - {k}"
    using u by (force simp: AList.delete_eq image_iff)
  moreover have "storage ?s' LOCAL_STORAGE_KEY = Some (stringify_store (urlMap ?s'))"
    using Cons.prems by (simp add: handleDelete_unfold)
  ultimately show ?case using t by (cases ks) (auto simp: step_def)
qed

text \<open>
  C31. From every reachable state the user can always empty the store: deleting the
  listed keys one after the other leaves no entry, saved as \<open>{}\<close>.
\<close>

theorem reachable_can_clear:
  assumes "reach s"
  shows "\<exists>t. run (map Delete (obj_keys (urlMap s))) s = Some t \<and> urlMap t = [] \<and>
             storage t LOCAL_STORAGE_KEY = Some ''{}''"
proof -
  have inv: "app_inv s" using assms by (rule reach_inv)
  then have wf: "obj_wf (urlMap s)" by (simp add: app_inv_def)
  obtain t where t: "run (map Delete (obj_keys (urlMap s))) s = Some t"
      "fst ` set (urlMap t) = fst ` set (urlMap s) - set (obj_keys (urlMap s))"
      "obj_keys (urlMap s) \<noteq> [] \<longrightarrow> storage t LOCAL_STORAGE_KEY = Some (stringify_store (urlMap t))"
    using run_deletes [OF wf] by blast
  have e: "urlMap t = []" using t(2) by (simp add: obj_simps)
  have "stringify_store [] = ''{}''" by (simp add: stringify_store_def store_to_json_def)
  moreover have "storage t LOCAL_STORAGE_KEY = Some (stringify_store (urlMap t))"
  proof (cases "obj_keys (urlMap s) = []")
    case True
    then have "urlMap s = []" by (metis obj_keys_entries length_map length_obj_entries length_0_conv)
    moreover have "t = s" using t(1) True by simp
    then show ?thesis using inv by (simp add: app_inv_def)
  qed (use t(3) in simp)
  ultimately show ?thesis using t(1) e by simp
qed

subsection \<open>Witnesses\<close>

theorem reachable_store_saved_witness:
  "storage (set_url_map [(key_draw (sconst (1 / 2)) 0, new_entry ''https://example.com'')]
           ((fresh_app (sconst (1 / 2)))\<lparr>rng := sdrop 6 (sconst (1 / 2))\<rparr>)) LOCAL_STORAGE_KEY
     = Some (stringify_store [(key_draw (sconst (1 / 2)) 0, new_entry ''https://example.com'')]) \<and>
   (\<exists>t. mount (init_state (storage (set_url_map [(key_draw (sconst (1 / 2)) 0, new_entry ''https://example.com'')]
           ((fresh_app (sconst (1 / 2)))\<lparr>rng := sdrop 6 (sconst (1 / 2))\<rparr>))) (sconst 0)) = Inr t \<and>
      map_of (urlMap t) = map_of [(key_draw (sconst (1 / 2)) 0, new_entry ''https://example.com'')] \<and>
      obj_keys (urlMap t) = obj_keys [(key_draw (sconst (1 / 2)) 0, new_entry ''https://example.com'')])"
  using reachable_store_saved [OF reach_example, of "sconst 0"] by simp

theorem reachable_urls_unique_witness:
  "distinct (map fst [(key_draw (sconst (1 / 2)) 0, new_entry ''https://example.com'')]) \<and>
   distinct (map (\<lambda>e. originalUrl (snd e)) [(key_draw (sconst (1 / 2)) 0, new_entry ''https://example.com'')]) \<and>
   list_all (\<lambda>e. clicks (snd e) \<le> 2 ^ 53) [(key_draw (sconst (1 / 2)) 0, new_entry ''https://example.com'')]"
  using reachable_urls_unique [OF reach_example] by simp

theorem reachable_keys_format_witness:
  "list_all (\<lambda>k. length k = 6 \<and> list_all is_key_char k)
     (obj_keys [(key_draw (sconst (1 / 2)) 0, new_entry ''https://example.com'')])"
  using reachable_keys_format [OF reach_example] by simp

theorem reachable_can_clear_witness:
  "\<exists>t. run (map Delete (obj_keys (urlMap (set_url_map [(key_draw (sconst (1 / 2)) 0, new_entry ''https://example.com'')]
           ((fresh_app (sconst (1 / 2)))\<lparr>rng := sdrop 6 (sconst (1 / 2))\<rparr>)))))
         (set_url_map [(key_draw (sconst (1 / 2)) 0, new_entry ''https://example.com'')]
           ((fresh_app (sconst (1 / 2)))\<lparr>rng := sdrop 6 (sconst (1 / 2))\<rparr>)) = Some t \<and>
       urlMap t = [] \<and> storage t LOCAL_STORAGE_KEY = Some ''{}''"
  by (rule reachable_can_clear [OF reach_example])

end
