(* ===== verification/View.thy ===== *)
theory View
  imports App
begin

text \<open>
  The rendering of the component (\<open>src/src/UrlShortener.jsx\<close>, lines 83--157) and
  the wiring of its controls. \<open>render\<close> maps the state to what the user sees:
  the input's value, the error paragraph (shown when \<open>error\<close> is not the empty
  string, line 104), and either the text \<open>No URLs added yet.\<close> (when
  \<open>Object.keys(urlMap).length === 0\<close>, line 107) or one table row per entry of
  \<open>Object.entries(urlMap)\<close> (line 120), in enumeration order. A row shows the
  cosmetic short URL \<open>{baseUrl}/{key}\<close> with \<open>baseUrl =
  window.location.origin\<close> (line 83, the parameter \<open>base\<close>), the original
  URL and the click count; its React key is the short key. \<open>dispatch\<close> turns a
  user action on the rendered screen into the event the handler receives: the
  link of row \<open>i\<close> calls \<open>handleRedirect(key)\<close> after
  \<open>preventDefault()\<close> (lines 125--128), its Delete button
  \<open>handleDelete(key)\<close> (line 137). The element tree itself, with its styles
  and handlers, is \<open>Jsx\<close>.
\<close>

record row =
  row_key :: js_string
  short_text :: js_string
  original :: js_string
  shown_clicks :: nat

definition row_of :: "js_string \<Rightarrow> js_string \<times> entry \<Rightarrow> row" where
  "row_of base e =
     \<lparr>row_key = fst e, short_text = base @ ''/'' @ fst e, original = originalUrl (snd e),
      shown_clicks = clicks (snd e)\<rparr>"

datatype url_list = NoUrls | UrlTable "row list"

record screen =
  input_value :: js_string
  error_line :: "js_string option"
  url_list :: url_list

definition render :: "js_string \<Rightarrow> app \<Rightarrow> screen" where
  "render base s =
     \<lparr>input_value = inputUrl s,
      error_line = (if error s = [] then None else Some (error s)),
      url_list = (if length (obj_keys (urlMap s)) = 0 then NoUrls
                  else UrlTable (map (row_of base) (obj_entries (urlMap s))))\<rparr>"

definition screen_rows :: "screen \<Rightarrow> row list" where
  "screen_rows sc = (case url_list sc of NoUrls \<Rightarrow> [] | UrlTable rs \<Rightarrow> rs)"

text \<open>What the user can do on the screen; rows are addressed by their position.\<close>

datatype ui_action = TypeText js_string | PressShorten | ClickShortLink nat | PressDelete nat

definition dispatch :: "js_string \<Rightarrow> app \<Rightarrow> ui_action \<Rightarrow> event option" where
  "dispatch base s a =
     (let rows = screen_rows (render base s) in
      case a of
        TypeText v \<Rightarrow> Some (Type v)
      | PressShorten \<Rightarrow> Some Shorten
      | ClickShortLink i \<Rightarrow> if i < length rows then Some (OpenLink (row_key (rows ! i))) else None
      | PressDelete i \<Rightarrow> if i < length rows then Some (Delete (row_key (rows ! i))) else None)"

definition ui_step :: "js_string \<Rightarrow> ui_action \<Rightarrow> app \<Rightarrow> app option" where
  "ui_step base a s = (case dispatch base s a of None \<Rightarrow> None | Some ev \<Rightarrow> step ev s)"

text \<open>
  \<open>Math.random\<close> results that draw the key \<open>abcdef\<close> and then the key
  \<open>123456\<close>.
\<close>

definition order_draws :: "real stream" where
  "order_draws = map char_draw ''abcdef'' @- map char_draw ''123456'' @- sconst (1 / 2)"

text \<open>A state with one stored link, used in the examples below.\<close>

definition demo_app :: app where
  "demo_app = (init_state Map.empty (sconst 0))
     \<lparr>urlMap := [(''abc123'', \<lparr>originalUrl = ''https://a.com'', clicks = 3\<rparr>)]\<rparr>"

subsection \<open>The rows\<close>

lemma screen_rows_render: "screen_rows (render base s) = map (row_of base) (obj_entries (urlMap s))"
  by (simp add: screen_rows_def render_def obj_keys_entries)

lemma row_of_simps [simp]:
  "row_key (row_of base e) = fst e" "original (row_of base e) = originalUrl (snd e)"
  "shown_clicks (row_of base e) = clicks (snd e)" "short_text (row_of base e) = base @ ''/'' @ fst e"
  by (simp_all add: row_of_def)

lemma entry_eta [simp]: "\<lparr>originalUrl = originalUrl e, clicks = clicks e\<rparr> = e"
  by (cases e) simp

lemma length_delete_distinct:
  "distinct (map fst xs) \<Longrightarrow> k \<in> fst ` set xs \<Longrightarrow> length (AList.delete k xs) = length xs - 1"
proof (induction xs)
  case (Cons p xs)
  show ?case
  proof (cases "fst p = k")
    case True
    with Cons.prems have "k \<notin> fst ` set xs" by auto
    then have "AList.delete k xs = xs" by simp
    with True show ?thesis by simp
  next
    case False
    with Cons have "length (AList.delete k xs) = length xs - 1" by auto
    moreover have "xs \<noteq> []" using Cons.prems False by auto
    ultimately show ?thesis using False by simp
  qed
qed simp

lemma delete_filter_fst: "AList.delete k xs = filter (\<lambda>p. fst p \<noteq> k) xs"
  by (induction xs) auto

lemma entry_at_row:
  assumes wf: "obj_wf (urlMap s)" and i: "i < length (obj_entries (urlMap s))"
  shows "map_of (urlMap s) (fst (obj_entries (urlMap s) ! i)) = Some (snd (obj_entries (urlMap s) ! i))"
proof -
  have "obj_entries (urlMap s) ! i \<in> set (urlMap s)" using i nth_mem [OF i] by simp
  then show ?thesis using wf by (simp add: obj_wf_def)
qed

subsection \<open>Properties of the view\<close>

text \<open>
  C20. The table shows exactly the store: one row per entry, in enumeration order,
  with unique React keys (the short keys), each row showing its entry's original URL
  and click count and the short URL \<open>base/key\<close>; the text \<open>No URLs added yet.\<close>
  appears exactly when the store is empty.
\<close>

theorem render_table:
  assumes wf: "obj_wf (urlMap s)"
  shows "map row_key (screen_rows (render base s)) = obj_keys (urlMap s) \<and>
         distinct (map row_key (screen_rows (render base s))) \<and>
         map_of (map (\<lambda>r. (row_key r, \<lparr>originalUrl = original r, clicks = shown_clicks r\<rparr>))
                   (screen_rows (render base s))) = map_of (urlMap s) \<and>
         list_all (\<lambda>r. short_text r = base @ ''/'' @ row_key r) (screen_rows (render base s)) \<and>
         (url_list (render base s) = NoUrls \<longleftrightarrow> urlMap s = [])"
proof -
  have d: "distinct (map fst (obj_entries (urlMap s)))" using wf obj_wf_entries [of "urlMap s"]
    by (simp add: obj_wf_def)
  have "length (obj_keys (urlMap s)) = 0 \<longleftrightarrow> urlMap s = []" by (simp add: obj_keys_entries)
  then have "url_list (render base s) = NoUrls \<longleftrightarrow> urlMap s = []" by (simp add: render_def)
  then show ?thesis
    using d wf by (simp add: screen_rows_render map_of_obj_entries obj_keys_entries
        comp_def list_all_iff)
qed

text \<open>
  C21. Clicking the short link of row \<open>i\<close> opens that row's original URL, and
  the new table is the old one with only row \<open>i\<close> changed: its click count is one
  higher (below \<open>2^53\<close>), and every row keeps its position.
\<close>

theorem click_link_updates_row:
  assumes wf: "obj_wf (urlMap s)" and i: "i < length (screen_rows (render base s))"
    and small: "shown_clicks (screen_rows (render base s) ! i) < 2 ^ 53"
  shows "\<exists>t. ui_step base (ClickShortLink i) s = Some t \<and>
             opened t = opened s @ [original (screen_rows (render base s) ! i)] \<and>
             screen_rows (render base t) = (screen_rows (render base s))[i :=
               (screen_rows (render base s) ! i)\<lparr>shown_clicks := shown_clicks (screen_rows (render base s) ! i) + 1\<rparr>]"
proof -
  let ?xs = "obj_entries (urlMap s)"
  let ?k = "fst (?xs ! i)" and ?e = "snd (?xs ! i)"
  have il: "i < length ?xs" using i by (simp add: screen_rows_render)
  have e: "map_of (urlMap s) ?k = Some ?e" using entry_at_row [OF wf il] .
  have d: "distinct (map fst ?xs)" using wf obj_wf_entries [of "urlMap s"] by (simp add: obj_wf_def)
  have kin: "?k \<in> fst ` set (urlMap s)" using e by (auto dest: map_of_SomeD intro: rev_image_eqI)
  let ?t = "(set_url_map (AList.update ?k (incr_clicks ?e) ?xs) s)\<lparr>opened := opened s @ [originalUrl ?e]\<rparr>"
  have step: "ui_step base (ClickShortLink i) s = Some ?t"
    using i il wf e by (simp add: ui_step_def dispatch_def step_def screen_rows_render handleRedirect_present)
  have upd: "AList.update ?k (incr_clicks ?e) ?xs = ?xs[i := (?k, incr_clicks ?e)]"
    using update_at_index [OF d il] by simp
  have c: "clicks ?e < 2 ^ 53" using small il by (simp add: screen_rows_render)
  have "obj_entries (urlMap ?t) = ?xs[i := (?k, incr_clicks ?e)]"
    using obj_entries_update_entries [OF wf kin, of "incr_clicks ?e"] upd by simp
  then have "screen_rows (render base ?t) = map (row_of base) (?xs[i := (?k, incr_clicks ?e)])"
    by (simp add: screen_rows_render)
  also have "\<dots> = (map (row_of base) ?xs)[i := (row_of base (?xs ! i))\<lparr>shown_clicks := clicks ?e + 1\<rparr>]"
    using c by (simp add: map_update row_of_def js_incr_exact)
  finally show ?thesis
    using step il by (simp add: screen_rows_render)
qed

text \<open>
  C22. Pressing Delete in row \<open>i\<close> removes exactly that row: the other rows stay
  in their order, the table has one row less, and the new store is saved.
\<close>

theorem press_delete_removes_row:
  assumes wf: "obj_wf (urlMap s)" and i: "i < length (screen_rows (render base s))"
  shows "\<exists>t. ui_step base (PressDelete i) s = Some t \<and>
             screen_rows (render base t) =
               filter (\<lambda>r. row_key r \<noteq> row_key (screen_rows (render base s) ! i)) (screen_rows (render base s)) \<and>
             length (screen_rows (render base t)) = length (screen_rows (render base s)) - 1 \<and>
             storage t LOCAL_STORAGE_KEY = Some (stringify_store (urlMap t))"
proof -
  let ?xs = "obj_entries (urlMap s)"
  let ?k = "fst (?xs ! i)"
  have il: "i < length ?xs" using i by (simp add: screen_rows_render)
  have d: "distinct (map fst ?xs)" using wf obj_wf_entries [of "urlMap s"] by (simp add: obj_wf_def)
  have kin: "?k \<in> fst ` set ?xs" using il nth_mem by blast
  let ?t = "set_url_map (AList.delete ?k ?xs) s"
  have step: "ui_step base (PressDelete i) s = Some ?t"
    using i il wf by (simp add: ui_step_def dispatch_def step_def screen_rows_render handleDelete_unfold)
  have rows: "screen_rows (render base ?t) = map (row_of base) (AList.delete ?k ?xs)"
    by (simp add: screen_rows_render obj_entries_delete)
  have "map (row_of base) (AList.delete ?k ?xs) = filter (\<lambda>r. row_key r \<noteq> ?k) (map (row_of base) ?xs)"
    by (simp add: delete_filter_fst filter_map comp_def)
  moreover have "length (AList.delete ?k ?xs) = length ?xs - 1" using length_delete_distinct [OF d kin] .
  ultimately show ?thesis
    using step rows il by (simp add: screen_rows_render)
qed

text \<open>
  C23. The table does not change across a reload: in every reachable state, the
  component mounted again over the same storage shows the same rows in the same
  order.
\<close>

theorem render_stable_reload:
  assumes "reach s" and "mount (init_state (storage s) rs) = Inr t"
  shows "screen_rows (render base t) = screen_rows (render base s)"
proof -
  have inv: "app_inv s" using assms(1) by (rule reach_inv)
  then have "mount (init_state (storage s) rs) =
               Inr (set_url_map (obj_entries (urlMap s)) (persist (init_state (storage s) rs)))"
    by (intro mount_saved) (simp_all add: app_inv_def init_state_def)
  with assms(2) have "t = set_url_map (obj_entries (urlMap s)) (persist (init_state (storage s) rs))"
    by simp
  then show ?thesis by (simp add: screen_rows_render)
qed

lemma order_draws_ok: "rng_ok order_draws"
proof -
  have "list_all math_random_ok (map char_draw (''abcdef'' @ ''123456''))"
    using concat_char_draws [of "''abcdef'' @ ''123456''"] by (simp add: is_key_char_def key_chars_def)
  then have "rng_ok ((map char_draw ''abcdef'' @ map char_draw ''123456'') @- sconst (1 / 2))"
    by (intro rng_ok_shift) (simp_all add: math_random_ok_def)
  then show ?thesis by (simp add: order_draws_def shift_append)
qed

lemma order_draws_keys:
  "key_draw order_draws 0 = ''abcdef''" "key_draw (sdrop 6 order_draws) 0 = ''123456''"
proof -
  have a: "list_all is_key_char ''abcdef''" and b: "list_all is_key_char ''123456''"
    by (simp_all add: is_key_char_def key_chars_def)
  show "key_draw order_draws 0 = ''abcdef''"
    using key_draw_chars [OF a, of "map char_draw ''123456'' @- sconst (1 / 2)"]
    by (simp add: order_draws_def)
  have "sdrop (length (map char_draw ''abcdef'')) order_draws = map char_draw ''123456'' @- sconst (1 / 2)"
    unfolding order_draws_def by (rule sdrop_length_shift)
  then have "sdrop 6 order_draws = map char_draw ''123456'' @- sconst (1 / 2)"
    by (simp add: numeral_eq_Suc)
  then show "key_draw (sdrop 6 order_draws) 0 = ''123456''"
    using key_draw_chars [OF b, of "sconst (1 / 2)"] by simp
qed

text \<open>Shortening two different valid URLs with the draws \<open>order_draws\<close>.\<close>

lemma run_two_urls:
  assumes "js_trim u1 \<noteq> []" "isValidUrl u1" "js_trim u2 \<noteq> []" "isValidUrl u2" "u1 \<noteq> u2"
  shows "\<exists>t. run [Type u1, Shorten, Type u2, Shorten] (fresh_app order_draws) = Some t \<and>
             urlMap t = [(''abcdef'', new_entry u1), (''123456'', new_entry u2)]"
proof -
  let ?s1 = "set_url_map [(''abcdef'', new_entry u1)] ((fresh_app order_draws)\<lparr>rng := sdrop 6 order_draws\<rparr>)"
  have r1: "run [Type u1, Shorten] (fresh_app order_draws) = Some ?s1"
    using shorten_fresh_app [OF assms(1,2), of order_draws] order_draws_keys(1) by simp
  let ?s2 = "set_url_map [(''abcdef'', new_entry u1), (''123456'', new_entry u2)]
               (?s1\<lparr>error := [], inputUrl := [], rng := sdrop 6 (sdrop 6 order_draws)\<rparr>)"
  have ne: "find_existing [(''abcdef'', new_entry u1)] u2 = None"
    using assms(5) by (simp add: find_existing_def obj_keys_def own_property_keys_def is_array_index_def new_entry_def)
  have ff: "find_fresh_key [(''abcdef'', new_entry u1)] (sdrop 6 order_draws)
            = Some (''123456'', sdrop 6 (sdrop 6 order_draws))"
    using find_fresh_key_fresh [of "[(''abcdef'', new_entry u1)]" "sdrop 6 order_draws"]
      order_draws_keys(2) by simp
  have ent: "obj_entries [(''abcdef'', new_entry u1)] = [(''abcdef'', new_entry u1)]"
    by (simp add: obj_entries_def is_array_index_def)
  have "handleShorten (?s1\<lparr>inputUrl := u2\<rparr>) = Some ?s2"
    using ne ff ent assms(3,4) by (simp add: handleShorten_fresh add_new_entry_Some obj_wf_def)
  then have r2: "run [Type u2, Shorten] ?s1 = Some ?s2" by (simp add: step_def)
  show ?thesis using r1 r2 run_append [of "[Type u1, Shorten]" "[Type u2, Shorten]"] by simp
qed

text \<open>
  The table is not in creation order: after shortening \<open>https://a.com\<close>
  (key \<open>abcdef\<close>) and then \<open>https://b.com\<close> (key \<open>123456\<close>), the object holds
  the keys in creation order but the table lists \<open>123456\<close> first, because an
  all-digit key is an array index and \<open>Object.entries\<close> enumerates array
  indices before the other keys.
\<close>

theorem render_order_example:
  "\<exists>t. run [Type ''https://a.com'', Shorten, Type ''https://b.com'', Shorten] (fresh_app order_draws) = Some t \<and>
       map fst (urlMap t) = [''abcdef'', ''123456''] \<and>
       map row_key (screen_rows (render base t)) = [''123456'', ''abcdef'']"
proof -
  obtain t where t: "run [Type ''https://a.com'', Shorten, Type ''https://b.com'', Shorten] (fresh_app order_draws) = Some t"
    "urlMap t = [(''abcdef'', new_entry ''https://a.com''), (''123456'', new_entry ''https://b.com'')]"
    using run_two_urls [of "''https://a.com''" "''https://b.com''"]
    by (auto simp: js_trim_def is_js_ws_def url_defs)
  have "map row_key (screen_rows (render base t)) = [''123456'', ''abcdef'']"
    using t(2) by (simp add: screen_rows_render obj_entries_def is_array_index_def no_leading_zero_def
        is_digit_def nat_of_digits_def digit_val_def)
  with t show ?thesis by auto
qed


subsection \<open>Witnesses\<close>

lemma demo_app_wf: "obj_wf (urlMap demo_app)"
  by (simp add: demo_app_def init_state_def obj_wf_def)

lemma demo_rows:
  "screen_rows (render ''https://sho.rt'' demo_app) =
     [\<lparr>row_key = ''abc123'', short_text = ''https://sho.rt/abc123'', original = ''https://a.com'',
       shown_clicks = 3\<rparr>]"
  by (simp add: screen_rows_render demo_app_def init_state_def obj_entries_def is_array_index_def row_of_def)

theorem render_table_witness:
  "map row_key (screen_rows (render ''https://sho.rt'' demo_app)) = obj_keys (urlMap demo_app) \<and>
   distinct (map row_key (screen_rows (render ''https://sho.rt'' demo_app))) \<and>
   map_of (map (\<lambda>r. (row_key r, \<lparr>originalUrl = original r, clicks = shown_clicks r\<rparr>))
             (screen_rows (render ''https://sho.rt'' demo_app))) = map_of (urlMap demo_app) \<and>
   list_all (\<lambda>r. short_text r = ''https://sho.rt'' @ ''/'' @ row_key r) (screen_rows (render ''https://sho.rt'' demo_app)) \<and>
   (url_list (render ''https://sho.rt'' demo_app) = NoUrls \<longleftrightarrow> urlMap demo_app = [])"
  by (rule render_table) (rule demo_app_wf)

theorem click_link_updates_row_witness:
  "\<exists>t. ui_step ''https://sho.rt'' (ClickShortLink 0) demo_app = Some t \<and>
       opened t = opened demo_app @ [original (screen_rows (render ''https://sho.rt'' demo_app) ! 0)] \<and>
       screen_rows (render ''https://sho.rt'' t) = (screen_rows (render ''https://sho.rt'' demo_app))[0 :=
         (screen_rows (render ''https://sho.rt'' demo_app) ! 0)\<lparr>shown_clicks :=
            shown_clicks (screen_rows (render ''https://sho.rt'' demo_app) ! 0) + 1\<rparr>]"
  by (rule click_link_updates_row) (simp_all add: demo_app_wf demo_rows)

theorem press_delete_removes_row_witness:
  "\<exists>t. ui_step ''https://sho.rt'' (PressDelete 0) demo_app = Some t \<and>
       screen_rows (render ''https://sho.rt'' t) =
         filter (\<lambda>r. row_key r \<noteq> row_key (screen_rows (render ''https://sho.rt'' demo_app) ! 0))
           (screen_rows (render ''https://sho.rt'' demo_app)) \<and>
       length (screen_rows (render ''https://sho.rt'' t)) = length (screen_rows (render ''https://sho.rt'' demo_app)) - 1 \<and>
       storage t LOCAL_STORAGE_KEY = Some (stringify_store (urlMap t))"
  by (rule press_delete_removes_row) (simp_all add: demo_app_wf demo_rows)

theorem render_stable_reload_witness:
  "screen_rows (render ''https://sho.rt'' (set_url_map (obj_entries [(key_draw (sconst (1 / 2)) 0, new_entry ''https://example.com'')])
      (persist (init_state (storage (set_url_map [(key_draw (sconst (1 / 2)) 0, new_entry ''https://example.com'')]
           ((fresh_app (sconst (1 / 2)))\<lparr>rng := sdrop 6 (sconst (1 / 2))\<rparr>))) (sconst 0)))))
   = screen_rows (render ''https://sho.rt'' (set_url_map [(key_draw (sconst (1 / 2)) 0, new_entry ''https://example.com'')]
           ((fresh_app (sconst (1 / 2)))\<lparr>rng := sdrop 6 (sconst (1 / 2))\<rparr>)))"
proof (rule render_stable_reload [OF reach_example])
  show "mount (init_state (storage (set_url_map [(key_draw (sconst (1 / 2)) 0, new_entry ''https://example.com'')]
           ((fresh_app (sconst (1 / 2)))\<lparr>rng := sdrop 6 (sconst (1 / 2))\<rparr>))) (sconst 0)) =
        Inr (set_url_map (obj_entries [(key_draw (sconst (1 / 2)) 0, new_entry ''https://example.com'')])
          (persist (init_state (storage (set_url_map [(key_draw (sconst (1 / 2)) 0, new_entry ''https://example.com'')]
           ((fresh_app (sconst (1 / 2)))\<lparr>rng := sdrop 6 (sconst (1 / 2))\<rparr>))) (sconst 0))))"
    by (rule mount_saved) (simp_all add: obj_wf_def clicks_bounded_def new_entry_def init_state_def)
qed

end
