(* ===== verification/Jsx.thy ===== *)
theory Jsx
  imports View
begin

text \<open>
  The element tree the component returns (\<open>src/src/UrlShortener.jsx\<close>, lines
  83--157) with its styles (\<open>thStyle\<close>, \<open>tdStyle\<close>, lines 160--170, and the
  inline style objects). An element has a tag, its props and its children; the props
  the JSX uses are plain attributes, a style object, the React \<open>key\<close>, an
  \<open>onClick\<close> handler (with whether it calls \<open>preventDefault\<close> first and the
  event it runs) and the input's \<open>onChange\<close>. Text children are strings;
  \<open>{clicks}\<close> is a number child. React makes no node for an empty string child
  (\<open>text_children\<close>), and writes a style object as CSS declarations: property
  names hyphenated, numbers other than 0 with the unit \<open>px\<close> unless the property
  is unitless (\<open>css_decls\<close>). \<open>View\<close> abstracts this tree to the screen
  record; the lemmas here show the handlers of the tree are the events
  \<open>dispatch\<close> gives, that sibling keys are unique, and which CSS the table cells
  get.
\<close>

datatype style_value = SNum nat | SStr js_string

type_synonym style = "(js_string \<times> style_value) list"

datatype jsx_prop = Attr js_string js_string | StyleProp style | ReactKey js_string
  | OnClick bool event | OnChange

datatype node = Elem js_string "jsx_prop list" "node list" | Txt js_string | NumTxt nat

subsection \<open>React's style serialisation\<close>

definition unitless_props :: "js_string list" where
  "unitless_props = [''flex'', ''flexGrow'', ''flexShrink'', ''fontWeight'', ''lineHeight'',
     ''opacity'', ''order'', ''zIndex'', ''zoom'']"

definition is_upper :: "char \<Rightarrow> bool" where
  "is_upper c \<longleftrightarrow> 65 \<le> (of_char c :: nat) \<and> (of_char c :: nat) \<le> 90"

definition to_lower :: "char \<Rightarrow> char" where
  "to_lower c = char_of (of_char c + (32 :: nat))"

fun hyphenate :: "js_string \<Rightarrow> js_string" where
  "hyphenate [] = []"
| "hyphenate (c # cs) = (if is_upper c then [CHR ''-'', to_lower c] else [c]) @ hyphenate cs"

definition css_value :: "js_string \<Rightarrow> style_value \<Rightarrow> js_string" where
  "css_value k v =
     (case v of
        SStr t \<Rightarrow> t
      | SNum n \<Rightarrow> if n = 0 \<or> k \<in> set unitless_props then string_of_nat n else string_of_nat n @ ''px'')"

definition css_decls :: "style \<Rightarrow> (js_string \<times> js_string) list" where
  "css_decls st = map (\<lambda>(k, v). (hyphenate k, css_value k v)) st"

subsection \<open>The element tree\<close>

definition thStyle :: style where
  "thStyle = [(''borderBottom'', SStr ''1px solid red''), (''padding'', SStr ''0.5rem''),
              (''textAlign'', SStr ''center'')]"

definition tdStyle :: style where
  "tdStyle = [(''padding'', SStr ''0.5rem''), (''borderBottom'', SStr ''1px solid red''),
              (''wordBreak'', SStr ''break-word'')]"

definition text_children :: "js_string list \<Rightarrow> node list" where
  "text_children ts = map Txt (filter (\<lambda>t. t \<noteq> []) ts)"

definition row_dom :: "js_string \<Rightarrow> js_string \<times> entry \<Rightarrow> node" where
  "row_dom base e = (case e of (key, ent) \<Rightarrow>
     Elem ''tr'' [ReactKey key]
       [Elem ''td'' [StyleProp tdStyle]
          [Elem ''a'' [Attr ''href'' ''#'', OnClick True (OpenLink key)] (text_children [base, ''/'', key])],
        Elem ''td'' [StyleProp tdStyle] (text_children [originalUrl ent]),
        Elem ''td'' [StyleProp tdStyle] [NumTxt (clicks ent)],
        Elem ''td'' [StyleProp tdStyle]
          [Elem ''button''
             [OnClick False (Delete key),
              StyleProp [(''padding'', SStr ''0.3rem 0.6rem''), (''backgroundColor'', SStr ''Blue''),
                         (''color'', SStr ''white''), (''border'', SStr ''none''),
                         (''borderRadius'', SStr ''4px''), (''cursor'', SStr ''pointer'')]]
             [Txt ''Delete'']]])"

definition th_cell :: "js_string \<Rightarrow> node" where
  "th_cell t = Elem ''th'' [StyleProp thStyle] [Txt t]"

definition render_dom :: "js_string \<Rightarrow> app \<Rightarrow> node" where
  "render_dom base s =
     Elem ''div'' [StyleProp [(''maxWidth'', SNum 700), (''margin'', SStr ''auto''), (''padding'', SStr ''2rem''),
                              (''fontFamily'', SStr ''sans-serif''), (''backgroundColor'', SStr ''lightgreen'')]]
      [Elem ''centre'' []
        ([Elem ''h1'' [StyleProp [(''color'', SStr ''red'')]] [Txt ''React URL Shortener''],
          Elem ''div'' [StyleProp [(''display'', SStr ''flex''), (''marginBottom'', SStr ''1rem'')]]
            [Elem ''input'' [Attr ''type'' ''text'', Attr ''placeholder'' ''Paste your URL here...'',
                             Attr ''value'' (inputUrl s), OnChange,
                             StyleProp [(''flex'', SNum 1), (''padding'', SStr ''0.5rem''), (''fontSize'', SStr ''1rem'')]] [],
             Elem ''button'' [OnClick False Shorten,
                              StyleProp [(''marginLeft'', SStr ''1rem''), (''padding'', SStr ''0.5rem 1rem''),
                                         (''fontSize'', SStr ''1rem''), (''color'', SStr ''green''),
                                         (''backgroundColor'', SStr ''pink'')]] [Txt ''Shorten'']]]
         @ (if error s = [] then [] else [Elem ''p'' [StyleProp [(''color'', SStr ''red'')]] (text_children [error s])])
         @ [Elem ''h2'' [StyleProp [(''color'', SStr ''purple'')]] [Txt ''Shortened URLs''],
            if length (obj_keys (urlMap s)) = 0 then Elem ''p'' [] [Txt ''No URLs added yet.'']
            else Elem ''table'' [StyleProp [(''width'', SStr ''100%''), (''borderCollapse'', SStr ''collapse'')]]
              [Elem ''thead'' [] [Elem ''tr'' [] (map th_cell [''Generated Short URL'', ''Original URL You Entered'',
                                                           ''No.of Clicks'', ''Action''])],
               Elem ''tbody'' [] (map (row_dom base) (obj_entries (urlMap s)))]])]"

subsection \<open>Reading the tree\<close>

fun prop_click :: "jsx_prop \<Rightarrow> (bool \<times> event) list" where
  "prop_click (OnClick pd ev) = [(pd, ev)]"
| "prop_click _ = []"

fun clickables :: "node \<Rightarrow> (bool \<times> event) list" where
  "clickables (Elem t ps cs) = concat (map prop_click ps) @ concat (map clickables cs)"
| "clickables _ = []"

fun prop_key :: "jsx_prop \<Rightarrow> js_string list" where
  "prop_key (ReactKey k) = [k]"
| "prop_key _ = []"

fun node_keys :: "node \<Rightarrow> js_string list" where
  "node_keys (Elem t ps cs) = concat (map prop_key ps)"
| "node_keys _ = []"

fun react_keys_ok :: "node \<Rightarrow> bool" where
  "react_keys_ok (Elem t ps cs) = (distinct (concat (map node_keys cs)) \<and> list_all react_keys_ok cs)"
| "react_keys_ok _ = True"

fun prop_css :: "jsx_prop \<Rightarrow> (js_string \<times> js_string) list" where
  "prop_css (StyleProp st) = css_decls st"
| "prop_css _ = []"

fun all_elems :: "(js_string \<Rightarrow> jsx_prop list \<Rightarrow> bool) \<Rightarrow> node \<Rightarrow> bool" where
  "all_elems P (Elem t ps cs) = (P t ps \<and> list_all (all_elems P) cs)"
| "all_elems P _ = True"

subsection \<open>The tree's parts\<close>

lemma css_thStyle:
  "css_decls thStyle = [(''border-bottom'', ''1px solid red''), (''padding'', ''0.5rem''), (''text-align'', ''center'')]"
  by code_simp

lemma css_tdStyle:
  "css_decls tdStyle = [(''padding'', ''0.5rem''), (''border-bottom'', ''1px solid red''), (''word-break'', ''break-word'')]"
  by code_simp

lemma text_children_parts [simp]:
  "concat (map clickables (text_children ts)) = []"
  "concat (map node_keys (text_children ts)) = []"
  "list_all react_keys_ok (text_children ts)"
  "list_all (all_elems P) (text_children ts)"
  by (induction ts) (simp_all add: text_children_def)

lemma text_children_single [simp]: "text_children [t] = (if t = [] then [] else [Txt t])"
  by (simp add: text_children_def)

lemma row_dom_parts [simp]:
  "clickables (row_dom base e) = [(True, OpenLink (fst e)), (False, Delete (fst e))]"
  "node_keys (row_dom base e) = [fst e]"
  "react_keys_ok (row_dom base e)"
  by (cases e; simp add: row_dom_def)+

lemma th_cell_parts [simp]:
  "clickables (th_cell t) = []" "node_keys (th_cell t) = []" "react_keys_ok (th_cell t)"
  by (simp_all add: th_cell_def)

lemma row_dom_cells:
  "all_elems P (row_dom base e) \<longleftrightarrow>
     P ''tr'' [ReactKey (fst e)] \<and> P ''td'' [StyleProp tdStyle] \<and>
     P ''a'' [Attr ''href'' ''#'', OnClick True (OpenLink (fst e))] \<and>
     P ''button'' [OnClick False (Delete (fst e)),
              StyleProp [(''padding'', SStr ''0.3rem 0.6rem''), (''backgroundColor'', SStr ''Blue''),
                         (''color'', SStr ''white''), (''border'', SStr ''none''),
                         (''borderRadius'', SStr ''4px''), (''cursor'', SStr ''pointer'')]]"
  by (cases e) (auto simp: row_dom_def)

lemma concat_pairs_nth:
  "i < length ks \<Longrightarrow>
   concat (map (\<lambda>k. [f k, g k]) ks) ! (2 * i) = f (ks ! i) \<and>
   concat (map (\<lambda>k. [f k, g k]) ks) ! (2 * i + 1) = g (ks ! i)"
proof (induction ks arbitrary: i)
  case (Cons k ks)
  then show ?case by (cases i) simp_all
qed simp

lemma clickables_render_dom:
  "clickables (render_dom base s) =
     (False, Shorten) # concat (map (\<lambda>k. [(True, OpenLink k), (False, Delete k)]) (obj_keys (urlMap s)))"
proof -
  have "concat (map clickables (map (row_dom base) (obj_entries (urlMap s)))) =
        concat (map (\<lambda>k. [(True, OpenLink k), (False, Delete k)]) (obj_keys (urlMap s)))"
    by (simp add: obj_keys_entries comp_def)
  moreover have "length (obj_keys (urlMap s)) = 0 \<Longrightarrow> obj_keys (urlMap s) = []" by simp
  ultimately show ?thesis
    by (auto simp: render_dom_def)
qed

subsection \<open>Properties of the element tree\<close>

text \<open>
  C38. The handlers of the rendered tree are the ones \<open>View\<close> dispatches: in
  document order the Shorten button runs \<open>handleShorten\<close>, then each row's link
  calls \<open>preventDefault\<close> and runs \<open>handleRedirect\<close> of its key and each row's
  Delete button runs \<open>handleDelete\<close> of its key; so the link and the button of
  row \<open>i\<close> run exactly the events \<open>dispatch\<close> gives for that row.
\<close>

theorem dom_wiring:
  "clickables (render_dom base s) =
     (False, Shorten) # concat (map (\<lambda>k. [(True, OpenLink k), (False, Delete k)]) (obj_keys (urlMap s))) \<and>
   (\<forall>i < length (screen_rows (render base s)).
      clickables (render_dom base s) ! (2 * i + 1) = (True, the (dispatch base s (ClickShortLink i))) \<and>
      clickables (render_dom base s) ! (2 * i + 2) = (False, the (dispatch base s (PressDelete i))))"
proof -
  have "\<forall>i < length (screen_rows (render base s)).
      clickables (render_dom base s) ! (2 * i + 1) = (True, the (dispatch base s (ClickShortLink i))) \<and>
      clickables (render_dom base s) ! (2 * i + 2) = (False, the (dispatch base s (PressDelete i)))"
  proof (intro allI impI)
    fix i assume i: "i < length (screen_rows (render base s))"
    then have il: "i < length (obj_keys (urlMap s))" by (simp add: screen_rows_render obj_keys_entries)
    have k: "row_key (screen_rows (render base s) ! i) = obj_keys (urlMap s) ! i"
      using il by (simp add: screen_rows_render obj_keys_entries)
    have "2 * i + 2 = Suc (2 * i + 1)" by simp
    then show "clickables (render_dom base s) ! (2 * i + 1) = (True, the (dispatch base s (ClickShortLink i))) \<and>
      clickables (render_dom base s) ! (2 * i + 2) = (False, the (dispatch base s (PressDelete i)))"
      using concat_pairs_nth [OF il, of "\<lambda>k. (True, OpenLink k)" "\<lambda>k. (False, Delete k)"] i k
      by (simp only: clickables_render_dom) (simp add: dispatch_def Let_def)
  qed
  then show ?thesis using clickables_render_dom by blast
qed

text \<open>
  C39. React's reconciliation needs the keys of sibling elements to be unique:
  whenever the store is a well-formed object, no two children of any element of the
  rendered tree carry the same \<open>key\<close> (the rows of the table are keyed by their
  short keys, line 121).
\<close>

theorem render_dom_keys_unique:
  assumes "obj_wf (urlMap s)"
  shows "react_keys_ok (render_dom base s)"
proof -
  have "distinct (map fst (obj_entries (urlMap s)))"
    using assms obj_wf_entries [of "urlMap s"] by (simp add: obj_wf_def)
  then have "distinct (concat (map node_keys (map (row_dom base) (obj_entries (urlMap s)))))"
    by (simp add: comp_def)
  then show ?thesis by (simp add: render_dom_def list_all_iff)
qed

text \<open>
  The styles of the table: in every state, every header cell gets exactly the CSS
  of \<open>thStyle\<close> and every data cell exactly that of \<open>tdStyle\<close>, so long
  URLs wrap inside their cell.
\<close>

lemma table_cell_styles:
  "all_elems (\<lambda>t ps.
      (t = ''th'' \<longrightarrow> concat (map prop_css ps) =
         [(''border-bottom'', ''1px solid red''), (''padding'', ''0.5rem''), (''text-align'', ''center'')]) \<and>
      (t = ''td'' \<longrightarrow> concat (map prop_css ps) =
         [(''padding'', ''0.5rem''), (''border-bottom'', ''1px solid red''), (''word-break'', ''break-word'')]))
    (render_dom base s)"
  by (simp add: render_dom_def row_dom_cells th_cell_def css_thStyle css_tdStyle list_all_iff)

subsection \<open>Witnesses\<close>

theorem dom_wiring_witness:
  "clickables (render_dom ''https://sho.rt'' demo_app) =
     [(False, Shorten), (True, OpenLink ''abc123''), (False, Delete ''abc123'')] \<and>
   clickables (render_dom ''https://sho.rt'' demo_app) ! 1 =
     (True, the (dispatch ''https://sho.rt'' demo_app (ClickShortLink 0))) \<and>
   clickables (render_dom ''https://sho.rt'' demo_app) ! 2 =
     (False, the (dispatch ''https://sho.rt'' demo_app (PressDelete 0)))"
proof -
  have keys: "obj_keys (urlMap demo_app) = [''abc123'']"
    by (simp add: obj_keys_entries demo_app_def init_state_def obj_entries_def is_array_index_def)
  have rows: "0 < length (screen_rows (render ''https://sho.rt'' demo_app))" by (simp add: demo_rows)
  have "clickables (render_dom ''https://sho.rt'' demo_app) =
     (False, Shorten) # concat (map (\<lambda>k. [(True, OpenLink k), (False, Delete k)]) (obj_keys (urlMap demo_app))) \<and>
   (\<forall>i < length (screen_rows (render ''https://sho.rt'' demo_app)).
      clickables (render_dom ''https://sho.rt'' demo_app) ! (2 * i + 1) =
        (True, the (dispatch ''https://sho.rt'' demo_app (ClickShortLink i))) \<and>
      clickables (render_dom ''https://sho.rt'' demo_app) ! (2 * i + 2) =
        (False, the (dispatch ''https://sho.rt'' demo_app (PressDelete i))))"
    by (rule dom_wiring)
  then show ?thesis using rows keys by fastforce
qed

theorem render_dom_keys_unique_witness: "react_keys_ok (render_dom ''https://sho.rt'' demo_app)"
  by (rule render_dom_keys_unique) (rule demo_app_wf)


end
