(* ===== verification/Refinement.thy ===== *)
theory Refinement
  imports App
begin

text \<open>
  The specification's view of the component (\<open>spec.md\<close>, sections 3 and 4): a
  store is a finite map from short keys to entries, and each operation is a step
  on it. \<open>astep\<close> is that abstract transition relation: shortening a valid,
  non-empty URL that no entry holds adds it under a six-character key from the
  alphabet that is not yet used, with no clicks (4.2); opening a stored key adds one
  click (4.3); deleting a key removes it, a no-op when absent (4.4); every other
  event (typing, rejected input, a duplicate, opening an absent key) leaves the
  store as it is. The abstraction of a component state is its store read as a map,
  \<open>map_of (urlMap s)\<close>. The refinement lemma shows that every step of the
  component (\<open>App.step\<close>) from a state satisfying the invariant is a step of
  the specification on the abstraction, as long as the click counters are below
  \<open>2^53\<close>, where double addition stops being exact.
\<close>

type_synonym astore = "js_string \<rightharpoonup> entry"

definition abs_store :: "app \<Rightarrow> astore" where
  "abs_store s = map_of (urlMap s)"

definition url_in :: "js_string \<Rightarrow> astore \<Rightarrow> bool" where
  "url_in u S \<longleftrightarrow> (\<exists>e\<in>ran S. originalUrl e = u)"

inductive astep :: "astore \<Rightarrow> astore \<Rightarrow> bool" where
  skip: "astep S S"
| shorten: "js_trim u \<noteq> [] \<Longrightarrow> isValidUrl u \<Longrightarrow> \<not> url_in u S \<Longrightarrow> S k = None \<Longrightarrow>
            length k = 6 \<Longrightarrow> list_all is_key_char k \<Longrightarrow>
            astep S (S(k \<mapsto> \<lparr>originalUrl = u, clicks = 0\<rparr>))"
| open_key: "S k = Some e \<Longrightarrow> astep S (S(k \<mapsto> e\<lparr>clicks := clicks e + 1\<rparr>))"
| delete: "astep S (S(k := None))"

inductive_cases astep_cases: "astep S S'"

definition clicks_below :: "url_map \<Rightarrow> bool" where
  "clicks_below m \<longleftrightarrow> list_all (\<lambda>e. clicks (snd e) < 2 ^ 53) m"

text \<open>Room for \<open>n\<close> more clicks on every entry below \<open>2^53\<close>.\<close>

definition headroom :: "nat \<Rightarrow> url_map \<Rightarrow> bool" where
  "headroom n m \<longleftrightarrow> n < 2 ^ 53 \<and> list_all (\<lambda>e. clicks (snd e) + n < 2 ^ 53) m"

subsection \<open>The abstraction\<close>

lemma abs_store_set_url_map [simp]: "abs_store (set_url_map m s) = map_of m"
  by (simp add: abs_store_def)

lemma url_in_map_of: "obj_wf m \<Longrightarrow> url_in u (map_of m) \<longleftrightarrow> url_stored m u"
  by (auto simp: url_in_def url_stored_def list_ex_iff ran_distinct obj_wf_def)

lemma map_add_fresh: "m k = None \<Longrightarrow> [k \<mapsto> v] ++ m = m(k \<mapsto> v)"
  by (auto simp: fun_eq_iff map_add_def split: option.splits)

lemma shorten_refines:
  assumes inv: "app_inv s" and sh: "handleShorten s = Some t"
  shows "astep (abs_store s) (abs_store t)"
  using handleShorten_outcome [OF inv sh]
proof
  assume "urlMap t = urlMap s \<and> storage t = storage s \<and> rng t = rng s"
  then show ?thesis by (simp add: abs_store_def astep.skip)
next
  assume new: "js_trim (inputUrl s) \<noteq> [] \<and> isValidUrl (inputUrl s) \<and> \<not> url_stored (urlMap s) (inputUrl s) \<and>
               add_new_entry (s\<lparr>error := []\<rparr>) = Some t"
  have inv0: "app_inv (s\<lparr>error := []\<rparr>)" by (rule app_inv_same_store [OF inv]) simp_all
  obtain k rs' where k: "length k = 6" "list_all is_key_char k" "map_of (urlMap s) k = None"
    and t: "t = set_url_map (obj_entries (urlMap s) @ [(k, new_entry (inputUrl s))])
                  (s\<lparr>error := [], inputUrl := [], rng := rs'\<rparr>)"
    using add_new_entry_shape [OF inv0] new by (metis ext_inject surjective update_convs(3))
  have wf: "obj_wf (urlMap s)" using inv by (simp add: app_inv_def)
  have "abs_store t = (abs_store s)(k \<mapsto> \<lparr>originalUrl = inputUrl s, clicks = 0\<rparr>)"
    using t k(3) wf by (simp add: abs_store_def map_of_obj_entries new_entry_def map_add_fresh)
  moreover have "astep (abs_store s) ((abs_store s)(k \<mapsto> \<lparr>originalUrl = inputUrl s, clicks = 0\<rparr>))"
    using new k wf by (intro astep.shorten) (simp_all add: abs_store_def url_in_map_of)
  ultimately show ?thesis by simp
qed

lemma redirect_refines:
  assumes inv: "app_inv s" and below: "clicks_below (urlMap s)" and r: "handleRedirect k s = Some t"
  shows "astep (abs_store s) (abs_store t)"
proof (cases "map_of (urlMap s) k")
  case None
  then show ?thesis using r handleRedirect_Some by (blast intro: astep.skip)
next
  case (Some e)
  have wf: "obj_wf (urlMap s)" using inv by (simp add: app_inv_def)
  have "clicks e < 2 ^ 53"
    using below map_of_SomeD [OF Some] by (auto simp: clicks_below_def list_all_iff)
  then have "incr_clicks e = e\<lparr>clicks := clicks e + 1\<rparr>" by (simp add: incr_clicks_def js_incr_exact)
  then have "abs_store t = (abs_store s)(k \<mapsto> e\<lparr>clicks := clicks e + 1\<rparr>)"
    using wf Some r by (auto simp: handleRedirect_present abs_store_def update_conv' map_of_obj_entries)
  moreover have "abs_store s k = Some e" using Some by (simp add: abs_store_def)
  ultimately show ?thesis using astep.open_key [of "abs_store s" k e] by simp
qed

lemma delete_refines:
  assumes inv: "app_inv s"
  shows "astep (abs_store s) (abs_store (handleDelete k s))"
proof -
  have wf: "obj_wf (urlMap s)" using inv by (simp add: app_inv_def)
  then have "abs_store (handleDelete k s) = (abs_store s)(k := None)"
    by (simp add: handleDelete_unfold abs_store_def delete_conv' map_of_obj_entries)
  then show ?thesis by (simp add: astep.delete)
qed

lemma headroom_below: "headroom (Suc n) m \<Longrightarrow> clicks_below m"
  by (auto simp: headroom_def clicks_below_def list_all_iff)

lemma headroom_entries [simp]: "headroom n (obj_entries m) = headroom n m"
  by (simp add: headroom_def)

lemma headroom_step:
  assumes inv: "app_inv s" and h: "headroom (Suc n) (urlMap s)" and st: "step ev s = Some t"
  shows "headroom n (urlMap t)"
proof -
  have wf: "obj_wf (urlMap s)" using inv by (simp add: app_inv_def)
  have hs: "headroom n (urlMap s)" using h by (auto simp: headroom_def list_all_iff)
  show ?thesis
  proof (cases ev)
    case (Type v)
    then show ?thesis using st hs by (auto simp: step_def)
  next
    case Shorten
    then have sh: "handleShorten s = Some t" using st by (simp add: step_def)
    show ?thesis
      using handleShorten_outcome [OF inv sh]
    proof
      assume "urlMap t = urlMap s \<and> storage t = storage s \<and> rng t = rng s"
      then show ?thesis using hs by simp
    next
      assume new: "js_trim (inputUrl s) \<noteq> [] \<and> isValidUrl (inputUrl s) \<and>
                   \<not> url_stored (urlMap s) (inputUrl s) \<and> add_new_entry (s\<lparr>error := []\<rparr>) = Some t"
      have inv0: "app_inv (s\<lparr>error := []\<rparr>)" by (rule app_inv_same_store [OF inv]) simp_all
      obtain k rs' where "t = set_url_map (obj_entries (urlMap s) @ [(k, new_entry (inputUrl s))])
                            (s\<lparr>error := [], inputUrl := [], rng := rs'\<rparr>)"
        using add_new_entry_shape [OF inv0] new by (metis ext_inject surjective update_convs(3))
      then show ?thesis using hs by (simp add: headroom_def new_entry_def)
    qed
  next
    case (OpenLink k)
    then have t: "handleRedirect k s = Some t" using st by (simp add: step_def)
    show ?thesis
    proof (cases "map_of (urlMap s) k")
      case None
      then show ?thesis using t hs handleRedirect_Some by blast
    next
      case (Some e)
      have "clicks e + Suc n < 2 ^ 53"
        using h map_of_SomeD [OF Some] by (auto simp: headroom_def list_all_iff)
      then have "js_incr (clicks e) + n < 2 ^ 53" by (simp add: js_incr_exact)
      then show ?thesis
        using t Some wf hs unfolding headroom_def
        by (auto simp: handleRedirect_present intro!: list_all_update)
    qed
  next
    case (Delete k)
    then have "t = set_url_map (AList.delete k (obj_entries (urlMap s))) s"
      using st wf by (simp add: step_def handleDelete_unfold)
    then show ?thesis using hs by (simp add: headroom_def list_all_delete)
  qed
qed

subsection \<open>Refinement\<close>

text \<open>
  C25. Every step of the component, from a state satisfying the invariant whose
  click counters are below \<open>2^53\<close>, is a step of the specification on the
  abstract store.
\<close>

theorem step_refines:
  assumes "app_inv s" and "clicks_below (urlMap s)" and "step ev s = Some t"
  shows "astep (abs_store s) (abs_store t)"
proof (cases ev)
  case (Type v)
  then show ?thesis using assms(3) by (auto simp: step_def abs_store_def astep.skip)
next
  case Shorten
  then show ?thesis using assms(3) shorten_refines [OF assms(1)] by (simp add: step_def)
next
  case (OpenLink k)
  then show ?thesis using assms(3) redirect_refines [OF assms(1,2)] by (simp add: step_def)
next
  case (Delete k)
  then show ?thesis using assms(3) delete_refines [OF assms(1)] by (auto simp: step_def)
qed

text \<open>
  C26. Conversely, every shortening the specification allows is one the component
  can perform: for any valid URL no entry holds and any unused six-character key
  over the alphabet, some results of \<open>Math.random\<close> in \<open>[0, 1)\<close> make typing
  the URL and pressing Shorten store it under exactly that key.
\<close>

theorem shorten_complete:
  assumes wf: "obj_wf (urlMap s)" and u: "js_trim u \<noteq> []" "isValidUrl u" "\<not> url_in u (abs_store s)"
    and k: "abs_store s k = None" "length k = 6" "list_all is_key_char k"
  shows "\<exists>rs t. rng_ok rs \<and> run [Type u, Shorten] (s\<lparr>rng := rs\<rparr>) = Some t \<and>
                abs_store t = (abs_store s)(k \<mapsto> \<lparr>originalUrl = u, clicks = 0\<rparr>)"
proof -
  let ?rs = "map char_draw k @- sconst (1 / 2)"
  have rs: "rng_ok ?rs"
    using concat_char_draws [OF k(3)] by (intro rng_ok_shift) (simp_all add: math_random_ok_def)
  have kd: "key_draw ?rs 0 = k" using key_draw_chars [OF k(3,2)] .
  have ff: "find_fresh_key (urlMap s) ?rs = Some (k, sdrop 6 ?rs)"
    using find_fresh_key_fresh [of "urlMap s" ?rs] kd k(1) by (simp add: abs_store_def)
  have ne: "find_existing (urlMap s) u = None"
    using find_existing_None_iff [OF wf] u(3) url_in_map_of [OF wf] by (simp add: abs_store_def)
  let ?t = "set_url_map (AList.update k (new_entry u) (obj_entries (urlMap s)))
              (s\<lparr>rng := ?rs, inputUrl := u, error := [], inputUrl := [], rng := sdrop 6 ?rs\<rparr>)"
  have "handleShorten (s\<lparr>rng := ?rs, inputUrl := u\<rparr>) = Some ?t"
    using u ne ff wf by (simp add: handleShorten_fresh add_new_entry_Some)
  then have "run [Type u, Shorten] (s\<lparr>rng := ?rs\<rparr>) = Some ?t" by (simp add: step_def)
  moreover have "abs_store ?t = (abs_store s)(k \<mapsto> \<lparr>originalUrl = u, clicks = 0\<rparr>)"
    using wf by (simp add: abs_store_def update_conv' map_of_obj_entries new_entry_def)
  ultimately show ?thesis using rs by blast
qed

text \<open>
  C27. Over any sequence of events, from a state satisfying the invariant with room
  for as many clicks as there are events, the component's store moves through a
  sequence of specification steps, and the invariant still holds at the end.
\<close>

theorem run_refines:
  assumes "app_inv s" and "headroom (length evs) (urlMap s)" and "run evs s = Some t"
  shows "astep\<^sup>*\<^sup>* (abs_store s) (abs_store t) \<and> app_inv t"
  using assms
proof (induction evs arbitrary: s)
  case Nil
  then show ?case by simp
next
  case (Cons ev evs)
  from Cons.prems(3) obtain s' where st: "step ev s = Some s'" and r: "run evs s' = Some t"
    by (auto split: option.splits)
  have inv': "app_inv s'" using step_inv [OF Cons.prems(1) st] .
  have "headroom (length evs) (urlMap s')"
    using headroom_step [OF Cons.prems(1) _ st] Cons.prems(2) by simp
  with Cons.IH [OF inv' _ r] have "astep\<^sup>*\<^sup>* (abs_store s') (abs_store t) \<and> app_inv t" by blast
  moreover have "astep (abs_store s) (abs_store s')"
    using step_refines [OF Cons.prems(1) _ st] headroom_below Cons.prems(2) by simp
  ultimately show ?case by (meson converse_rtranclp_into_rtranclp)
qed

subsection \<open>Witnesses\<close>

lemma app_inv_example:
  "app_inv (set_url_map [(key_draw (sconst (1 / 2)) 0, new_entry ''https://example.com'')]
        ((fresh_app (sconst (1 / 2)))\<lparr>rng := sdrop 6 (sconst (1 / 2))\<rparr>))"
  using reach_inv [OF reach_example] .

theorem step_refines_witness:
  "astep (abs_store (set_url_map [(key_draw (sconst (1 / 2)) 0, new_entry ''https://example.com'')]
        ((fresh_app (sconst (1 / 2)))\<lparr>rng := sdrop 6 (sconst (1 / 2))\<rparr>)))
     (abs_store (the (handleRedirect (key_draw (sconst (1 / 2)) 0) (set_url_map [(key_draw (sconst (1 / 2)) 0, new_entry ''https://example.com'')]
        ((fresh_app (sconst (1 / 2)))\<lparr>rng := sdrop 6 (sconst (1 / 2))\<rparr>)))))"
  by (rule step_refines [of _ "OpenLink (key_draw (sconst (1 / 2)) 0)"])
    (rule app_inv_example, simp_all add: clicks_below_def new_entry_def step_def handleRedirect_present obj_wf_def)

theorem shorten_complete_witness:
  "\<exists>rs t. rng_ok rs \<and>
     run [Type ''https://example.com'', Shorten] ((init_state Map.empty (sconst 0))\<lparr>rng := rs\<rparr>) = Some t \<and>
     abs_store t = (abs_store (init_state Map.empty (sconst 0)))(''abc123'' \<mapsto> \<lparr>originalUrl = ''https://example.com'', clicks = 0\<rparr>)"
  by (rule shorten_complete)
    (simp_all add: init_state_def obj_wf_def abs_store_def url_in_def js_trim_def is_js_ws_def url_defs
      is_key_char_def key_chars_def)

theorem run_refines_witness:
  "astep\<^sup>*\<^sup>* (abs_store (set_url_map [(key_draw (sconst (1 / 2)) 0, new_entry ''https://example.com'')]
        ((fresh_app (sconst (1 / 2)))\<lparr>rng := sdrop 6 (sconst (1 / 2))\<rparr>)))
     (abs_store (the (handleRedirect (key_draw (sconst (1 / 2)) 0) (set_url_map [(key_draw (sconst (1 / 2)) 0, new_entry ''https://example.com'')]
        ((fresh_app (sconst (1 / 2)))\<lparr>rng := sdrop 6 (sconst (1 / 2))\<rparr>))))) \<and>
   app_inv (the (handleRedirect (key_draw (sconst (1 / 2)) 0) (set_url_map [(key_draw (sconst (1 / 2)) 0, new_entry ''https://example.com'')]
        ((fresh_app (sconst (1 / 2)))\<lparr>rng := sdrop 6 (sconst (1 / 2))\<rparr>))))"
  by (rule run_refines [of _ "[OpenLink (key_draw (sconst (1 / 2)) 0)]"])
    (rule app_inv_example, simp_all add: headroom_def new_entry_def step_def handleRedirect_present obj_wf_def)

end
