(* ===== verification/KeyGenDouble.thy ===== *)
theory KeyGenDouble
  imports KeyGen JsNumber
begin

text \<open>
  The generator of \<open>KeyGen\<close> on IEEE-754 doubles. An engine's \<open>Math.random\<close>
  draws \<open>p\<close> random bits and returns the double \<open>n / 2^p\<close> with \<open>n < 2^p\<close>
  (V8: \<open>p = 52\<close>, SpiderMonkey: \<open>p = 53\<close>); the model takes the integer
  \<open>n\<close>. \<open>Math.random() * chars.length\<close> (line 7) is the double nearest to
  the exact product \<open>62 n / 2^p\<close>: since scaling by \<open>2^p\<close> is exact, that is
  the numerator \<open>62 n\<close> rounded to 53 significant bits (\<open>dbl_round\<close>) over
  \<open>2^p\<close>, and \<open>Math.floor\<close> of it is a quotient of naturals. The lemmas show
  that the rounded index stays below 62 and within one of the exact one, that every
  key the doubles produce is a key of the real-valued model of \<open>KeyGen\<close>, and
  that the rounding changes the character for some draws.
\<close>

definition draw_ok :: "nat \<Rightarrow> nat \<Rightarrow> bool" where
  "draw_ok p n \<longleftrightarrow> p \<le> 53 \<and> n < 2 ^ p"


definition random_index_dbl :: "nat \<Rightarrow> nat \<Rightarrow> nat" where
  "random_index_dbl p n = dbl_round (n * length key_chars) div 2 ^ p"

definition random_char_dbl :: "nat \<Rightarrow> nat \<Rightarrow> js_string" where
  "random_char_dbl p n = js_char_at key_chars (int (random_index_dbl p n))"

definition generateShortKey_dbl :: "nat \<Rightarrow> nat \<Rightarrow> nat stream \<Rightarrow> js_string \<times> nat stream" where
  "generateShortKey_dbl p len ns = (concat (map (random_char_dbl p) (stake len ns)), sdrop len ns)"

text \<open>
  The real number whose exact product with 62 is the rounded product: the draw of
  the real-valued model that stands for the double draw \<open>n\<close>.
\<close>

definition ideal_draw :: "nat \<Rightarrow> nat \<Rightarrow> real" where
  "ideal_draw p n = real (dbl_round (n * 62)) / 2 ^ p / 62"

subsection \<open>Rounding error\<close>

lemma dbl_round_error: "dbl_round n \<le> n + 2 ^ (bitlen n - 54) \<and> n \<le> dbl_round n + 2 ^ (bitlen n - 54)"
proof (cases "53 < bitlen n")
  case True
  define k where "k = bitlen n - 53"
  define q where "q = n div 2 ^ k"
  define r where "r = n mod 2 ^ k"
  define h :: nat where "h = 2 ^ (bitlen n - 54)"
  have k: "k - 1 = bitlen n - 54" using True by (simp add: k_def)
  have "k = Suc (bitlen n - 54)" using True by (simp add: k_def)
  then have two: "2 ^ k = 2 * h" by (simp add: h_def)
  have n: "n = q * 2 ^ k + r" unfolding q_def r_def by (rule div_mult_mod_eq [symmetric])
  have rk: "r < 2 ^ k" by (simp add: r_def)
  have eq: "dbl_round n = (if h < r \<or> (r = h \<and> odd q) then q + 1 else q) * 2 ^ k"
    using True k by (simp add: dbl_round_def Let_def k_def q_def r_def h_def)
  show ?thesis
  proof (cases "h < r \<or> (r = h \<and> odd q)")
    case True
    then have "dbl_round n = q * 2 ^ k + 2 * h" "h \<le> r" using eq two by (auto simp: algebra_simps)
    then show ?thesis using n rk two h_def by linarith
  next
    case False
    then have "dbl_round n = q * 2 ^ k" "r \<le> h" using eq by auto
    then show ?thesis using n h_def by linarith
  qed
next
  case False
  then show ?thesis by (simp add: dbl_round_def)
qed


lemma div_le_Suc_div: "a \<le> b + c \<Longrightarrow> c \<le> d \<Longrightarrow> a div d \<le> b div d + (1 :: nat)"
proof -
  assume "a \<le> b + c" "c \<le> d"
  then have "a \<le> b + d" by simp
  then have "a div d \<le> (b + d) div d" by (rule div_le_mono)
  also have "\<dots> \<le> b div d + 1"
    by (cases "d = 0") simp_all
  finally show ?thesis .
qed

lemma draw_bitlen:
  assumes "draw_ok p n"
  shows "bitlen (n * 62) \<le> 59"
proof -
  have "(2 :: nat) ^ p \<le> 2 ^ 53" using assms by (intro power_increasing) (simp_all add: draw_ok_def)
  then have "n < 2 ^ 53" using assms by (simp add: draw_ok_def)
  then have "n * 62 < 2 ^ 59" by simp
  then show ?thesis by (simp add: bitlen_le_iff)
qed

lemma random_index_dbl_error:
  assumes "draw_ok p n"
  shows "random_index_dbl p n \<le> n * 62 div 2 ^ p + 1 \<and> n * 62 div 2 ^ p \<le> random_index_dbl p n + 1"
proof (cases "bitlen (n * 62) \<le> 53")
  case True
  then show ?thesis by (simp add: random_index_dbl_def dbl_round_def)
next
  case False
  have "2 ^ (bitlen (n * 62) - 54) \<le> (2 :: nat) ^ 5"
    using draw_bitlen [OF assms] by (intro power_increasing) simp_all
  then have e: "2 ^ (bitlen (n * 62) - 54) \<le> (32 :: nat)" by simp
  have "2 ^ 53 \<le> n * 62" using False by (simp add: bitlen_le_iff)
  then have "2 ^ 47 < n" by simp
  then have h: "(2 :: nat) ^ 47 < 2 ^ p" using assms by (simp add: draw_ok_def)
  have "47 < p" using power_less_imp_less_exp [of "2 :: nat" 47 p] h by simp
  then have "(2 :: nat) ^ 5 \<le> 2 ^ p" by (intro power_increasing) simp_all
  then have d: "32 \<le> (2 :: nat) ^ p" by simp
  have r: "dbl_round (n * 62) \<le> n * 62 + 32" "n * 62 \<le> dbl_round (n * 62) + 32"
    using dbl_round_error [of "n * 62"] e by linarith+
  show ?thesis
    using div_le_Suc_div [OF r(1) d] div_le_Suc_div [OF r(2) d] by (simp add: random_index_dbl_def)
qed

lemma random_index_dbl_bound:
  assumes "draw_ok p n"
  shows "random_index_dbl p n < 62"
proof -
  have "dbl_round (n * 62) \<le> n * 62 + 2 ^ (bitlen (n * 62) - 54)" using dbl_round_error by blast
  moreover have "2 ^ (bitlen (n * 62) - 54) \<le> (2 :: nat) ^ 5"
    using draw_bitlen [OF assms] by (intro power_increasing) simp_all
  ultimately have "dbl_round (n * 62) < (n + 1) * 62" by simp
  also have "\<dots> \<le> 2 ^ p * 62" using assms by (simp add: draw_ok_def)
  finally show ?thesis by (simp add: random_index_dbl_def less_mult_imp_div_less)
qed

lemma random_char_dbl_nth:
  "draw_ok p n \<Longrightarrow> random_char_dbl p n = [key_chars ! random_index_dbl p n]"
  using random_index_dbl_bound [of p n] by (simp add: random_char_dbl_def js_char_at_def)

lemma random_char_ideal:
  assumes "draw_ok p n"
  shows "math_random_ok (ideal_draw p n) \<and> random_char (ideal_draw p n) = random_char_dbl p n"
proof -
  have fl: "\<lfloor>ideal_draw p n * 62\<rfloor> = int (random_index_dbl p n)"
  proof -
    have "ideal_draw p n * 62 = real (dbl_round (n * 62)) / real (2 ^ p)"
      by (simp add: ideal_draw_def)
    then show ?thesis by (simp only: floor_divide_of_nat_eq random_index_dbl_def length_key_chars)
  qed
  have b: "random_index_dbl p n < 62" using random_index_dbl_bound [OF assms] .
  have "0 \<le> ideal_draw p n * 62" by (simp add: ideal_draw_def)
  moreover have "ideal_draw p n * 62 < 62"
    using fl b by (metis floor_less_iff of_nat_less_iff of_int_of_nat_eq of_nat_numeral)
  ultimately have ok: "math_random_ok (ideal_draw p n)" by (simp add: math_random_ok_def)
  with fl show ?thesis
    by (simp add: random_char_def random_char_dbl_def)
qed

lemma stake_sconst_replicate: "stake n (sconst x) = replicate n x"
  using stake_shift [of n "replicate n x" "sconst x"] by (simp only: shift_replicate_sconst) simp

lemma random_chars_ideal:
  "list_all (draw_ok p) xs \<Longrightarrow>
   list_all math_random_ok (map (ideal_draw p) xs) \<and>
   map random_char (map (ideal_draw p) xs) = map (random_char_dbl p) xs"
  by (induction xs) (simp_all add: random_char_ideal)




subsection \<open>Properties of the generator on doubles\<close>

text \<open>
  C34. For every double \<open>Math.random\<close> may return, the rounded product
  \<open>Math.floor(Math.random() * chars.length)\<close> is an index of \<open>chars\<close>, so the
  \<open>undefined\<close> branch of the indexing never occurs; the rounded index is at most
  one away from the exact one.
\<close>

theorem random_char_dbl_in_range:
  assumes "draw_ok p n"
  shows "random_char_dbl p n = [key_chars ! random_index_dbl p n] \<and>
         random_index_dbl p n < length key_chars \<and>
         random_index_dbl p n \<le> n * length key_chars div 2 ^ p + 1 \<and>
         n * length key_chars div 2 ^ p \<le> random_index_dbl p n + 1"
  using random_char_dbl_nth [OF assms] random_index_dbl_bound [OF assms]
    random_index_dbl_error [OF assms] by simp

text \<open>
  C35. The real-valued model of \<open>KeyGen\<close> covers the doubles: every key the
  generator computes in IEEE arithmetic from valid draws is the key the real-valued
  generator computes from valid real draws (\<open>ideal_draw\<close>), so it has the
  requested length and only alphabet characters.
\<close>

theorem generateShortKey_dbl_refines:
  assumes "list_all (draw_ok p) (stake len ns)"
  shows "list_all math_random_ok (stake len (smap (ideal_draw p) ns)) \<and>
         fst (generateShortKey len (smap (ideal_draw p) ns)) = fst (generateShortKey_dbl p len ns) \<and>
         length (fst (generateShortKey_dbl p len ns)) = len \<and>
         list_all is_key_char (fst (generateShortKey_dbl p len ns))"
proof -
  have st: "stake len (smap (ideal_draw p) ns) = map (ideal_draw p) (stake len ns)"
    by (simp add: stake_smap)
  have r: "list_all math_random_ok (map (ideal_draw p) (stake len ns))"
    "map random_char (map (ideal_draw p) (stake len ns)) = map (random_char_dbl p) (stake len ns)"
    using random_chars_ideal [OF assms] by simp_all
  have "concat (map random_char (map (ideal_draw p) (stake len ns))) =
        concat (map (random_char_dbl p) (stake len ns))" using r(2) by (rule arg_cong)
  then have k: "fst (generateShortKey len (smap (ideal_draw p) ns)) = fst (generateShortKey_dbl p len ns)"
    using st by (simp only: generateShortKey_def generateShortKey_dbl_def fst_conv)
  have "length (fst (generateShortKey len (smap (ideal_draw p) ns))) = len \<and>
        list_all is_key_char (fst (generateShortKey len (smap (ideal_draw p) ns)))"
    using concat_random_chars [OF r(1)] st by (simp add: generateShortKey_def)
  then show ?thesis
    using st r(1) k by simp
qed



subsection \<open>Witnesses\<close>

theorem random_char_dbl_in_range_witness:
  "random_char_dbl 52 1162219258676257 = [key_chars ! random_index_dbl 52 1162219258676257] \<and>
   random_index_dbl 52 1162219258676257 < length key_chars \<and>
   random_index_dbl 52 1162219258676257 \<le> 1162219258676257 * length key_chars div 2 ^ 52 + 1 \<and>
   1162219258676257 * length key_chars div 2 ^ 52 \<le> random_index_dbl 52 1162219258676257 + 1"
  by (rule random_char_dbl_in_range) (simp add: draw_ok_def)

theorem generateShortKey_dbl_refines_witness:
  "list_all math_random_ok (stake 6 (smap (ideal_draw 52) (sconst 1162219258676257))) \<and>
   fst (generateShortKey 6 (smap (ideal_draw 52) (sconst 1162219258676257))) =
     fst (generateShortKey_dbl 52 6 (sconst 1162219258676257)) \<and>
   length (fst (generateShortKey_dbl 52 6 (sconst 1162219258676257))) = 6 \<and>
   list_all is_key_char (fst (generateShortKey_dbl 52 6 (sconst 1162219258676257)))"
  by (rule generateShortKey_dbl_refines) (simp add: draw_ok_def stake_sconst_replicate list_all_iff)


end
