(* ===== verification/Spec2Isabelle.thy ===== *)
theory Spec2Isabelle
  imports Jsx Refinement KeyGenDouble
begin

text \<open>
  Verification development of the React URL shortener, the single component
  \<open>UrlShortener\<close> of \<open>src/src/UrlShortener.jsx\<close>.

  \<^bold>\<open>The program.\<close> One function component keeps three pieces of state
  (\<open>inputUrl\<close>, \<open>urlMap\<close>, \<open>error\<close>). On mount an effect reads
  \<open>localStorage['urlShortenerData']\<close> and parses it into \<open>urlMap\<close>; a second
  effect writes \<open>JSON.stringify(urlMap)\<close> back after every change. Three handlers
  change the state: \<open>handleShorten\<close> validates the input with \<open>isValidUrl\<close>,
  rejects a URL already stored and draws random keys with \<open>generateShortKey\<close>
  until one is free; \<open>handleRedirect\<close> counts a click and opens the URL;
  \<open>handleDelete\<close> removes an entry. The JSX renders a form and a table.

  \<^bold>\<open>Theories.\<close>
  \<^item> \<open>Prelude\<close>: fact collections (\<open>obj_simps\<close>, \<open>handler_simps\<close>),
    \<open>String.prototype.trim\<close> (\<open>js_trim\<close>), decimal digit strings.
  \<^item> \<open>JsObject\<close>: JavaScript objects as association lists in creation order,
    with ECMAScript's enumeration order (\<open>obj_keys\<close>, \<open>obj_entries\<close>: array
    index keys first, numerically) and spread (\<open>obj_spread\<close>).
  \<^item> \<open>JsNumber\<close>: \<open>clicks + 1\<close> on doubles (\<open>js_incr\<close>, exact below
    \<open>2^53\<close>, saturating at \<open>2^53\<close>).
  \<^item> \<open>KeyGen\<close>: \<open>generateShortKey\<close> over a stream of \<open>Math.random\<close>
    results; length and alphabet (C8), every key reachable (C10), uniform choice of
    each character (C11), all for draws taken as exact reals.
  \<^item> \<open>KeyGenDouble\<close>: the same generator in IEEE arithmetic, \<open>Math.random\<close>
    returning \<open>n / 2^p\<close> for \<open>p \<le> 53\<close> random bits and the product with
    \<open>chars.length\<close> rounded to a double: the index stays in range and within one of
    the exact one (C34), every key is a key of the real-valued model (C35), so the
    lemmas over real draws cover the doubles; the rounding does change characters
    (C36), and no engine precision makes the 62 characters exactly equally likely
    (C37).
  \<^item> \<open>UrlCheck\<close>: \<open>isValidUrl\<close> over the failure conditions of the WHATWG URL
    parser the browser provides (\<open>url_parse_ok\<close>): input trimming, the scheme,
    the special-scheme host parser (percent-decoding, lower-casing, forbidden code
    points, a host ending in a number parsed as IPv4 by \<open>ipv4_ok\<close>, bracketed
    IPv6 by the loop \<open>ipv6_loop\<close>), the port, \<open>file:\<close> hosts (drive letters)
    and opaque hosts; examples of accepted and rejected inputs, and that every
    \<open>javascript:\<close> URL without an authority is accepted
    (\<open>javascript_url_valid\<close>).
  \<^item> \<open>Json\<close>: the JSON data model (numbers as exact decimals), \<open>JSON.stringify\<close>
    (\<open>json_print\<close>) and \<open>JSON.parse\<close> (\<open>json_parse\<close>, mutually recursive over
    values, members and elements with fuel); the number scanner accepts exactly the
    number grammar of ECMA-404 (\<open>parse_number_grammar\<close>, against the inductive
    \<open>number_lit\<close>), printing then parsing is the identity on canonical values
    (\<open>json_parse_print\<close>), and the fuel \<open>json_parse\<close> gives, one unit per
    character, is always enough (\<open>json_parse_fuel\<close>).
  \<^item> \<open>Store\<close>: the entry record, the component state record \<open>app\<close> with its
    environment (storage, opened tabs, alerts, random stream), serialisation of the
    store, the save effect (\<open>set_url_map\<close>), loading (\<open>load_store\<close>, which
    accepts entries in exactly the shape the component writes) and the mount commit
    (\<open>mount\<close>): the saved text loads back as the same store (C12), a reload
    restores it (C13), text that is not JSON throws (C14) and only then (C29), a
    mount that does not throw gives a well-formed state (C30), a click count written
    as any JSON number literal loads as the integer it denotes (C40).
  \<^item> \<open>Shortener\<close>: \<open>handleShorten\<close> with its retry loop
    \<open>find_fresh_key\<close> (\<^theory_text>\<open>partial_function (option)\<close>: \<open>None\<close> when
    every draw collides); a new URL is added under a fresh key (C1), invalid, empty
    and duplicate inputs change no entry (C2, C6, C7); a URL held under the empty key
    is stored twice (C18).
  \<^item> \<open>Handlers\<close>: \<open>handleRedirect\<close> and \<open>handleDelete\<close>: one click counted
    (C3), absent keys are no-ops (C4, C5), deletion removes one entry (C9), the
    counter stops at \<open>2^53\<close> (C33).
  \<^item> \<open>App\<close>: the events the JSX wires (\<open>event\<close>, \<open>step\<close>, sequences
    \<open>run\<close>), the reachable states from a browser with nothing saved through
    events and reloads (\<^theory_text>\<open>inductive\<close> \<open>reach\<close>) and their invariant
    \<open>app_inv\<close>, proved by rule induction: the saved text is the store and reloads
    to it (C15), keys and URLs unique and clicks bounded (C16), keys of six alphabet
    characters (C17); the store can always be emptied (C31).
  \<^item> \<open>View\<close>: \<open>render\<close> (the JSX of lines 83--157 as a screen record) and
    \<open>dispatch\<close> (clicks on rendered rows to events): the table mirrors the store
    (C20), a link click changes only its row (C21), Delete removes only its row
    (C22), reloads keep the table (C23), all-digit keys are listed first
    (\<open>render_order_example\<close>), an
    untrimmed URL is stored beside the trimmed one (C32).
  \<^item> \<open>Jsx\<close>: the element tree the component returns (\<open>render_dom\<close>,
    \<open>row_dom\<close>) with props, React keys, handlers and styles (\<open>thStyle\<close>,
    \<open>tdStyle\<close>, the inline style objects) and React's conversion of a style
    object to CSS (\<open>css_decls\<close>): the handlers of the tree, in document order,
    are the events \<open>dispatch\<close> gives, the link's after \<open>preventDefault\<close>
    (C38); sibling keys are unique (C39); the CSS of every table cell
    (\<open>table_cell_styles\<close>).
  \<^item> \<open>Refinement\<close>: the specification's abstract store (a finite map with the
    transition relation \<open>astep\<close> for shorten, open, delete and no-op) and the
    abstraction \<open>abs_store\<close>: every component step is a specification step
    (C25), every specified shortening can happen (C26), whole event sequences refine
    (C27).
  \<^item> \<open>Spec2Isabelle\<close>: the specification's end-to-end scenario (C19), and
    that a \<open>javascript:\<close> URL is shortened and handed to \<open>window.open\<close> (C24).
  The equivalence of the character-level array-index test with the ECMAScript
  definition is C28 (\<open>JsObject\<close>).

  \<^bold>\<open>Modelling choices.\<close> Strings are lists of 8-bit characters (JavaScript's
  UTF-16 code units below 256). Randomness is an explicit stream, so the retry loop
  is a function of it; it returns exactly when some draw is a free key, and C26 shows
  every free key is some draw. Each handler is run to completion and followed by the
  render and the save effect, as React does for discrete events; the specification
  (section 5) assumes the same run-to-completion discipline. Click counters are
  naturals with the double rounding of \<open>+ 1\<close> written out (\<open>dbl_round\<close>):
  exact below \<open>2^53\<close>, which is the bound of C16 and the hypothesis of the
  refinement lemmas. \<open>JSON.parse\<close> recursion is bounded by fuel
  \<open>length s + 1\<close>; \<open>parse_fuel\<close> shows a successful parse never needs more
  fuel than the characters it consumes, so the bound never changes the result.

  \<^bold>\<open>Not modelled.\<close> The browser's layout of the element tree (so the
  finding that \<open><centre>\<close>, line 87, is not an HTML element and centres
  nothing is recorded, not proved), and the browser's navigation for
  \<open>window.open\<close> (recorded as the list \<open>opened\<close>). \<open>isValidUrl\<close> is
  exact on the code's side (\<open>new URL\<close> in a try/catch); of the WHATWG parser
  behind it the model keeps the conditions under which it fails, on 8-bit
  characters, and leaves out the UTF-8 decoding of percent-escapes and IDNA
  (\<open>xn--\<close> labels, Unicode mapping), which need the Unicode tables, and the
  parts that only shape the result (path, query and fragment never fail). Parsed values of another shape than
  a store the component writes (extra or reordered entry properties, a fractional
  or negative click count) are outside the state space (\<open>UnsupportedShape\<close>):
  the component would keep them and save them back as they are. JSON numbers are
  kept as exact decimals; their rounding to doubles is modelled where the
  component reads one (a click count), and the overflow of huge exponents to
  \<open>Infinity\<close> or the underflow of tiny ones to 0 is not.
  The text of a number child \<open>{clicks}\<close> is kept as the number
  (\<open>NumTxt\<close>): \<open>Number.prototype.toString\<close> prints it in decimal below
  \<open>10^21\<close>, which holds in every reachable state (C16). Several tabs sharing one
  storage are a non-goal of the specification.
\<close>

subsection \<open>The specification's scenario\<close>

text \<open>
  C19. The scenario of the specification, for every stream of \<open>Math.random\<close>
  results in \<open>[0, 1)\<close>: in a browser with nothing saved, shortening
  \<open>https://example.com\<close> stores it under a new six-character key \<open>k1\<close> with
  no clicks and saves the store; shortening it again alerts and leaves the store as
  it is; opening \<open>k1\<close> counts one click and opens the URL; deleting \<open>k1\<close>
  empties the store, saved as \<open>{}\<close>.
\<close>

theorem spec_scenario:
  assumes rs: "rng_ok rs"
  shows "\<exists>k1 s1 s2 s3 s4.
     run [Type ''https://example.com'', Shorten] (fresh_app rs) = Some s1 \<and>
     length k1 = 6 \<and> list_all is_key_char k1 \<and>
     urlMap s1 = [(k1, \<lparr>originalUrl = ''https://example.com'', clicks = 0\<rparr>)] \<and>
     storage s1 LOCAL_STORAGE_KEY = Some (stringify_store (urlMap s1)) \<and>
     run [Type ''https://example.com'', Shorten] s1 = Some s2 \<and>
     urlMap s2 = urlMap s1 \<and> alerts s2 = [''URL already shortened.''] \<and>
     run [OpenLink k1] s2 = Some s3 \<and>
     urlMap s3 = [(k1, \<lparr>originalUrl = ''https://example.com'', clicks = 1\<rparr>)] \<and>
     opened s3 = [''https://example.com''] \<and>
     run [Delete k1] s3 = Some s4 \<and> urlMap s4 = [] \<and> storage s4 LOCAL_STORAGE_KEY = Some ''{}''"
proof -
  let ?u = "''https://example.com''"
  let ?k = "key_draw rs 0"
  let ?s1 = "set_url_map [(?k, new_entry ?u)] ((fresh_app rs)\<lparr>rng := sdrop 6 rs\<rparr>)"
  have k: "length ?k = 6 \<and> list_all is_key_char ?k" using key_draw_ok [OF rs] .
  have r1: "run [Type ?u, Shorten] (fresh_app rs) = Some ?s1" using shorten_fresh_app [OF trim_example valid_example] .
  let ?s2 = "?s1\<lparr>inputUrl := ?u\<rparr>\<lparr>error := [], alerts := alerts ?s1 @ [msg_duplicate], inputUrl := []\<rparr>"
  have kne: "?k \<noteq> []" using k by auto
  have dup: "find_existing [(?k, new_entry ?u)] ?u = Some ?k"
    by (simp add: find_existing_def obj_keys_def own_property_keys_def new_entry_def)
  have "handleShorten (?s1\<lparr>inputUrl := ?u\<rparr>) = Some ?s2"
    using handleShorten_duplicate [of "?s1\<lparr>inputUrl := ?u\<rparr>" ?k] dup kne valid_example trim_example
    by simp
  then have r2: "run [Type ?u, Shorten] ?s1 = Some ?s2" by (simp add: step_def)
  let ?s3 = "(set_url_map [(?k, incr_clicks (new_entry ?u))] ?s2)\<lparr>opened := [?u]\<rparr>"
  have r3: "run [OpenLink ?k] ?s2 = Some ?s3"
    by (simp add: step_def handleRedirect_present obj_wf_def obj_entries_def fresh_app_def init_state_def
        persist_def new_entry_def)
  let ?s4 = "set_url_map [] ?s3"
  have r4: "run [Delete ?k] ?s3 = Some ?s4"
    by (simp add: step_def handleDelete_unfold obj_wf_def obj_entries_def)
  have i1: "js_incr 0 = 1" using js_incr_exact [of 0] by simp
  have f1: "urlMap ?s1 = [(?k, \<lparr>originalUrl = ?u, clicks = 0\<rparr>)]" by (simp add: new_entry_def)
  have f1': "storage ?s1 LOCAL_STORAGE_KEY = Some (stringify_store (urlMap ?s1))" by simp
  have f2: "urlMap ?s2 = urlMap ?s1" by simp
  have f2': "alerts ?s2 = [''URL already shortened.'']"
    by (simp add: fresh_app_def init_state_def persist_def msg_duplicate_def)
  have f3: "urlMap ?s3 = [(?k, \<lparr>originalUrl = ?u, clicks = 1\<rparr>)]"
    using i1 by (simp add: new_entry_def incr_clicks_def)
  have f3': "opened ?s3 = [?u]" by simp
  have f4: "urlMap ?s4 = []" by simp
  have f4': "storage ?s4 LOCAL_STORAGE_KEY = Some ''{}''"
    by (simp add: stringify_store_def store_to_json_def obj_entries_def)
  show ?thesis
    using k
    by (intro exI [of _ ?k] exI [of _ ?s1] exI [of _ ?s2] exI [of _ ?s3] exI [of _ ?s4] conjI)
      (simp_all only: r1 r2 r3 r4 f1 f1' f2 f2' f3 f3' f4 f4')
qed

subsection \<open>Schemes that run script\<close>

lemma js_trim_javascript: "js_trim (''javascript:'' @ s) \<noteq> []"
  by (simp add: js_trim_def is_js_ws_def)

text \<open>
  C24. \<open>isValidUrl\<close> accepts every \<open>javascript:\<close> URL whose body does not start
  with a slash or a tab or newline (those would begin an authority), so from a fresh mount
  such a URL is shortened and opening its short link hands it, as typed, to
  \<open>window.open\<close>: the component never restricts the scheme to http or https.
\<close>

theorem javascript_url_opened:
  assumes "\<not> (s \<noteq> [] \<and> (hd s = CHR ''/'' \<or> is_tab_or_newline (hd s)))"
  shows "isValidUrl (''javascript:'' @ s) \<and>
         (\<exists>t. run [Type (''javascript:'' @ s), Shorten, OpenLink (key_draw rs 0)] (fresh_app rs) = Some t \<and>
              opened t = [''javascript:'' @ s])"
proof -
  let ?u = "''javascript:'' @ s"
  have v: "isValidUrl ?u" using assms by (rule javascript_url_valid)
  let ?s1 = "set_url_map [(key_draw rs 0, new_entry ?u)] ((fresh_app rs)\<lparr>rng := sdrop 6 rs\<rparr>)"
  have r1: "run [Type ?u, Shorten] (fresh_app rs) = Some ?s1"
    using shorten_fresh_app [OF js_trim_javascript v] .
  obtain t where h: "handleRedirect (key_draw rs 0) ?s1 = Some t" and o: "opened t = [?u]"
    by (simp add: handleRedirect_present obj_wf_def obj_entries_def fresh_app_def init_state_def
        persist_def new_entry_def)
  then have r2: "run [OpenLink (key_draw rs 0)] ?s1 = Some t" by (simp add: step_def)
  show ?thesis
    using v r1 r2 o run_append [of "[Type ?u, Shorten]" "[OpenLink (key_draw rs 0)]"] by simp
qed

subsection \<open>Witness\<close>

theorem spec_scenario_witness:
  "\<exists>k1 s1 s2 s3 s4.
     run [Type ''https://example.com'', Shorten] (fresh_app (sconst (1 / 2))) = Some s1 \<and>
     length k1 = 6 \<and> list_all is_key_char k1 \<and>
     urlMap s1 = [(k1, \<lparr>originalUrl = ''https://example.com'', clicks = 0\<rparr>)] \<and>
     storage s1 LOCAL_STORAGE_KEY = Some (stringify_store (urlMap s1)) \<and>
     run [Type ''https://example.com'', Shorten] s1 = Some s2 \<and>
     urlMap s2 = urlMap s1 \<and> alerts s2 = [''URL already shortened.''] \<and>
     run [OpenLink k1] s2 = Some s3 \<and>
     urlMap s3 = [(k1, \<lparr>originalUrl = ''https://example.com'', clicks = 1\<rparr>)] \<and>
     opened s3 = [''https://example.com''] \<and>
     run [Delete k1] s3 = Some s4 \<and> urlMap s4 = [] \<and> storage s4 LOCAL_STORAGE_KEY = Some ''{}''"
  by (rule spec_scenario) (simp add: rng_ok_def math_random_ok_def)

theorem javascript_url_opened_witness:
  "isValidUrl ''javascript:alert(1)'' \<and>
   (\<exists>t. run [Type ''javascript:alert(1)'', Shorten, OpenLink (key_draw (sconst (1 / 2)) 0)]
          (fresh_app (sconst (1 / 2))) = Some t \<and> opened t = [''javascript:alert(1)''])"
  using javascript_url_opened [of "''alert(1)''" "sconst (1 / 2)"] by (simp add: is_tab_or_newline_def)

end
